theory Spec2Isabelle
  imports
    Complex_Main
    "HOL-Library.Char_ord"
    "HOL-Library.List_Lexorder"
    "HOL-Library.Product_Lexorder"
    "HOL-Library.Multiset"
begin

section \<open>Tables\<close>

text \<open>
  The program of \<^verbatim>\<open>streamlit_app.py\<close> works on pandas data frames. A cell is a missing
  value, a number or a text; the provider's floating-point numbers are taken as exact
  rationals. A row lists its cells by column name, and a frame is the list of its column
  names with the list of its rows. A cell looked up under a name the row does not have
  reads as missing; the program's own column tests (\<^verbatim>\<open>c in df.columns\<close>) and the
  \<^verbatim>\<open>KeyError\<close> of an unguarded access are written out where they occur.
\<close>

datatype cell = NaN | Num rat | Str string

type_synonym row = "(string \<times> cell) list"

record df =
  columns :: "string list"
  rows :: "row list"

datatype error = KeyError string | TypeError

definition get :: "row \<Rightarrow> string \<Rightarrow> cell" where
  "get r c = (case map_of r c of Some v \<Rightarrow> v | None \<Rightarrow> NaN)"

definition mk_row :: "string list \<Rightarrow> (string \<Rightarrow> cell) \<Rightarrow> row" where
  "mk_row cs f = map (\<lambda>c. (c, f c)) cs"

definition DataFrame :: df where
  "DataFrame = \<lparr>columns = [], rows = []\<rparr>"

text \<open>
  The numeric reading of a cell: sums skip missing values (\<^verbatim>\<open>skipna\<close>). The columns the
  program adds up hold numbers and missing values, no text.
\<close>

fun num_of :: "cell \<Rightarrow> rat" where
  "num_of (Num q) = q"
| "num_of _ = 0"

definition series_sum :: "cell list \<Rightarrow> rat" where
  "series_sum xs = sum_list (map num_of xs)"

text \<open>\<^verbatim>\<open>int(x)\<close> and \<^verbatim>\<open>astype(int)\<close> on a float: truncation towards zero.\<close>

definition py_int :: "rat \<Rightarrow> int" where
  "py_int q = (if 0 \<le> q then \<lfloor>q\<rfloor> else \<lceil>q\<rceil>)"

text \<open>
  Group keys and join keys come out sorted. Texts are ordered as Python orders them
  (by code point, lexicographically); where numbers and texts meet, numbers come first.
\<close>

fun cell_key :: "cell \<Rightarrow> nat \<times> rat \<times> string" where
  "cell_key NaN = (0, 0, [])"
| "cell_key (Num q) = (1, q, [])"
| "cell_key (Str s) = (2, 0, s)"

subsection \<open>Selections\<close>

definition loc :: "(row \<Rightarrow> bool) \<Rightarrow> df \<Rightarrow> df" where
  "loc p d = d\<lparr>rows := filter p (rows d)\<rparr>"

definition dropna :: "string \<Rightarrow> df \<Rightarrow> df" where
  "dropna c d = loc (\<lambda>r. get r c \<noteq> NaN) d"

text \<open>\<^verbatim>\<open>df[cs]\<close> with a list of names fails on a name the frame does not have.\<close>

definition select_columns :: "string list \<Rightarrow> df \<Rightarrow> error + df" where
  "select_columns cs d =
     (case filter (\<lambda>c. c \<notin> set (columns d)) cs of
        [] \<Rightarrow> Inr \<lparr>columns = cs, rows = map (\<lambda>r. mk_row cs (get r)) (rows d)\<rparr>
      | c # _ \<Rightarrow> Inl (KeyError c))"

text \<open>\<^verbatim>\<open>df.empty\<close>: no column or no row.\<close>

definition empty :: "df \<Rightarrow> bool" where
  "empty d \<longleftrightarrow> columns d = [] \<or> rows d = []"

definition head :: "nat \<Rightarrow> df \<Rightarrow> df" where
  "head n d = d\<lparr>rows := take n (rows d)\<rparr>"

subsection \<open>Grouping\<close>

text \<open>
  \<^verbatim>\<open>groupby(ks)\<close> drops the rows with a missing key, and lists each key once, sorted.
\<close>

definition group_keys :: "string list \<Rightarrow> row list \<Rightarrow> cell list list" where
  "group_keys ks rs =
     sort_key (map cell_key) (remdups (filter (\<lambda>k. NaN \<notin> set k) (map (\<lambda>r. map (get r) ks) rs)))"

definition group_rows :: "string list \<Rightarrow> row list \<Rightarrow> cell list \<Rightarrow> row list" where
  "group_rows ks rs k = filter (\<lambda>r. map (get r) ks = k) rs"

text \<open>\<^verbatim>\<open>df.groupby(ks)[v].sum().reset_index()\<close>\<close>

definition groupby_sum :: "string list \<Rightarrow> string \<Rightarrow> df \<Rightarrow> df" where
  "groupby_sum ks v d =
     \<lparr>columns = ks @ [v],
      rows = map (\<lambda>k. zip ks k @ [(v, Num (series_sum (map (\<lambda>r. get r v) (group_rows ks (rows d) k))))])
                 (group_keys ks (rows d))\<rparr>"

text \<open>\<^verbatim>\<open>df.groupby(ks).size().reset_index(name=n)\<close>\<close>

definition groupby_size :: "string list \<Rightarrow> string \<Rightarrow> df \<Rightarrow> df" where
  "groupby_size ks n d =
     \<lparr>columns = ks @ [n],
      rows = map (\<lambda>k. zip ks k @ [(n, Num (of_nat (length (group_rows ks (rows d) k))))])
                 (group_keys ks (rows d))\<rparr>"

subsection \<open>Renaming, filling, casting\<close>

text \<open>
  \<^verbatim>\<open>df.rename(columns=m)\<close>; \<open>m\<close> is a Python dict literal, in which a later entry for
  the same key replaces an earlier one.
\<close>

definition rename_col :: "(string \<times> string) list \<Rightarrow> string \<Rightarrow> string" where
  "rename_col m c = (case map_of (rev m) c of Some n \<Rightarrow> n | None \<Rightarrow> c)"

definition rename :: "(string \<times> string) list \<Rightarrow> df \<Rightarrow> df" where
  "rename m d =
     \<lparr>columns = map (rename_col m) (columns d),
      rows = map (map (\<lambda>(c, v). (rename_col m c, v))) (rows d)\<rparr>"

definition fillna :: "cell \<Rightarrow> df \<Rightarrow> df" where
  "fillna v d = d\<lparr>rows := map (map (\<lambda>(c, x). (c, if x = NaN then v else x))) (rows d)\<rparr>"

text \<open>
  \<^verbatim>\<open>astype(int)\<close>. The program casts the counters after \<^verbatim>\<open>fillna(0)\<close>, when each of their
  cells is a number.
\<close>

fun cell_astype_int :: "cell \<Rightarrow> cell" where
  "cell_astype_int (Num q) = Num (of_int (py_int q))"
| "cell_astype_int x = x"

definition astype_int :: "string list \<Rightarrow> df \<Rightarrow> df" where
  "astype_int cs d =
     d\<lparr>rows := map (map (\<lambda>(c, x). (c, if c \<in> set cs then cell_astype_int x else x))) (rows d)\<rparr>"

text \<open>\<^verbatim>\<open>df.drop_duplicates(subset=[c])\<close>: the first row of each value of \<open>c\<close> stays.\<close>

fun first_rows :: "string \<Rightarrow> cell list \<Rightarrow> row list \<Rightarrow> row list" where
  "first_rows c seen [] = []"
| "first_rows c seen (r # rs) =
     (if get r c \<in> set seen then first_rows c seen rs
      else r # first_rows c (get r c # seen) rs)"

definition drop_duplicates :: "string \<Rightarrow> df \<Rightarrow> df" where
  "drop_duplicates c d = d\<lparr>rows := first_rows c [] (rows d)\<rparr>"

subsection \<open>Joins\<close>

text \<open>
  \<^verbatim>\<open>pd.merge(l, r, on=k, how=...)\<close>. A joined row has the key, the other cells of the left
  row and the other cells of the right row; the side that has no row for the key gives
  missing cells. At every call of the program the two frames share no column but the
  key, so no column is renamed by a suffix.
\<close>

definition join_row :: "string \<Rightarrow> string list \<Rightarrow> string list \<Rightarrow> cell \<Rightarrow> row option \<Rightarrow> row option \<Rightarrow> row" where
  "join_row on lc rc k x y =
     mk_row (lc @ filter (\<lambda>c. c \<notin> set lc) rc)
       (\<lambda>c. if c = on then k
            else if c \<in> set lc then (case x of Some r \<Rightarrow> get r c | None \<Rightarrow> NaN)
            else (case y of Some r \<Rightarrow> get r c | None \<Rightarrow> NaN))"

definition join_group :: "string \<Rightarrow> string list \<Rightarrow> string list \<Rightarrow> cell \<Rightarrow> row list \<Rightarrow> row list \<Rightarrow> row list" where
  "join_group on lc rc k xs ys =
     (if ys = [] then map (\<lambda>x. join_row on lc rc k (Some x) None) xs
      else if xs = [] then map (\<lambda>y. join_row on lc rc k None (Some y)) ys
      else concat (map (\<lambda>x. map (\<lambda>y. join_row on lc rc k (Some x) (Some y)) ys) xs))"

text \<open>An outer join lists the keys of both frames, sorted.\<close>

definition merge_outer :: "string \<Rightarrow> df \<Rightarrow> df \<Rightarrow> df" where
  "merge_outer on l r =
     \<lparr>columns = columns l @ filter (\<lambda>c. c \<notin> set (columns l)) (columns r),
      rows = concat (map (\<lambda>k. join_group on (columns l) (columns r) k
                                 (filter (\<lambda>x. get x on = k) (rows l))
                                 (filter (\<lambda>y. get y on = k) (rows r)))
                         (sort_key cell_key (remdups (map (\<lambda>x. get x on) (rows l @ rows r)))))\<rparr>"

text \<open>A left join keeps the rows of the left frame in their order.\<close>

definition merge_left :: "string \<Rightarrow> df \<Rightarrow> df \<Rightarrow> df" where
  "merge_left on l r =
     \<lparr>columns = columns l @ filter (\<lambda>c. c \<notin> set (columns l)) (columns r),
      rows = concat (map (\<lambda>x. join_group on (columns l) (columns r) (get x on) [x]
                                 (filter (\<lambda>y. get y on = get x on) (rows r)))
                         (rows l))\<rparr>"

section \<open>The defensive table\<close>

abbreviation pdn :: string where
  "pdn \<equiv> ''player_display_name''"

text \<open>\<^verbatim>\<open>def_stats_dict\<close>: statistic, flag column, player column, in the dict's order.\<close>

definition def_stats_dict :: "(string \<times> string \<times> string) list" where
  "def_stats_dict =
     [(''sacks'', ''sack'', ''sack_player_name''),
      (''interceptions'', ''interception'', ''interception_player_name''),
      (''fumbles_forced'', ''fumble_forced'', ''forced_fumble_player_1_player_name''),
      (''passes_defended'', ''pass_defense_1_player_name'', ''pass_defense_1_player_name''),
      (''fumbles_recovered'', ''fumble'', ''fumble_recovery_1_player_name'')]"

text \<open>
  The body of the loop for one statistic whose player column is in the play-by-play
  frame. The two counted statistics never read the flag column; the three summed ones
  read it, and fail with \<^verbatim>\<open>KeyError\<close> when the frame does not have it.
\<close>

definition stat_df :: "df \<Rightarrow> string \<Rightarrow> string \<Rightarrow> string \<Rightarrow> error + df" where
  "stat_df pbp_df stat_name flag_col player_col =
     (let df_filtered = dropna player_col pbp_df;
          names = [(flag_col, stat_name), (player_col, pdn)]
      in if stat_name \<in> set [''passes_defended'', ''fumbles_recovered'']
         then Inr (rename names (groupby_size [player_col] stat_name df_filtered))
         else if flag_col \<notin> set (columns pbp_df) then Inl (KeyError flag_col)
         else Inr (rename names
                (groupby_sum [player_col] flag_col
                   (loc (\<lambda>r. get r flag_col = Num 1) df_filtered))))"

fun aggregated_stats :: "df \<Rightarrow> (string \<times> string \<times> string) list \<Rightarrow> error + df list" where
  "aggregated_stats pbp_df [] = Inr []"
| "aggregated_stats pbp_df ((stat_name, flag_col, player_col) # rest) =
     (if player_col \<in> set (columns pbp_df)
      then (case stat_df pbp_df stat_name flag_col player_col of
              Inl e \<Rightarrow> Inl e
            | Inr t \<Rightarrow> (case aggregated_stats pbp_df rest of
                          Inl e \<Rightarrow> Inl e
                        | Inr ts \<Rightarrow> Inr (t # ts)))
      else aggregated_stats pbp_df rest)"

text \<open>\<^verbatim>\<open>reduce(f, ts)\<close> on a list that is not empty.\<close>

definition reduce :: "('a \<Rightarrow> 'a \<Rightarrow> 'a) \<Rightarrow> 'a list \<Rightarrow> 'a" where
  "reduce f ts = foldl f (hd ts) (tl ts)"

text \<open>
  From the outer join to the returned frame. The roster's two columns are read
  unguarded.
\<close>

definition finish_defense :: "df list \<Rightarrow> df \<Rightarrow> error + df" where
  "finish_defense ts rosters_df =
     (let defensive_df = fillna (Num 0) (reduce (merge_outer pdn) ts);
          stat_cols_to_convert =
            filter (\<lambda>stat. stat \<in> set (columns defensive_df)) (map fst def_stats_dict);
          defensive_df = astype_int stat_cols_to_convert defensive_df
      in case select_columns [''player_name'', ''position''] rosters_df of
           Inl e \<Rightarrow> Inl e
         | Inr named \<Rightarrow>
             (let player_positions = drop_duplicates pdn (rename [(''player_name'', pdn)] named)
              in Inr (merge_left pdn defensive_df player_positions)))"

text \<open>
  \<^verbatim>\<open>load_and_aggregate_pbp_data\<close>, from the two frames it loads for the year: the
  play-by-play frame and the roster.
\<close>

definition load_and_aggregate_pbp_data :: "df \<Rightarrow> df \<Rightarrow> error + df" where
  "load_and_aggregate_pbp_data pbp_df rosters_df =
     (case aggregated_stats pbp_df def_stats_dict of
        Inl e \<Rightarrow> Inl e
      | Inr ts \<Rightarrow> if ts = [] then Inr DataFrame else finish_defense ts rosters_df)"

section \<open>Sorting and ranking\<close>

text \<open>
  \<^verbatim>\<open>sort_values(by=c, ascending=False)\<close> is called without \<^verbatim>\<open>kind\<close>, so numpy's default
  \<^verbatim>\<open>argsort\<close> does the sorting. Its contract is that the indices it returns are a
  rearrangement of all positions that lists the values in ascending order; it does not
  promise an order among equal values. The sort is therefore a parameter of the model.
\<close>

type_synonym argsort = "rat list \<Rightarrow> nat list"

definition argsort_ok :: "argsort \<Rightarrow> bool" where
  "argsort_ok argsort \<longleftrightarrow>
     (\<forall>xs. mset (argsort xs) = mset [0..<length xs] \<and> sorted (map (\<lambda>i. xs ! i) (argsort xs)))"

text \<open>
  pandas' \<^verbatim>\<open>nargsort\<close> for a descending sort: the missing values go last; the others are
  reversed, sorted ascending, and the result is reversed again.
\<close>

definition nargsort :: "argsort \<Rightarrow> cell list \<Rightarrow> nat list" where
  "nargsort argsort items =
     (let idx = [0..<length items];
          non_nan_idx = rev (filter (\<lambda>i. items ! i \<noteq> NaN) idx);
          nan_idx = filter (\<lambda>i. items ! i = NaN) idx;
          non_nans = map (\<lambda>i. num_of (items ! i)) non_nan_idx
      in rev (map (\<lambda>j. non_nan_idx ! j) (argsort non_nans)) @ nan_idx)"

definition sort_values :: "argsort \<Rightarrow> string \<Rightarrow> df \<Rightarrow> df" where
  "sort_values argsort c d =
     d\<lparr>rows := map (\<lambda>i. rows d ! i) (nargsort argsort (map (\<lambda>r. get r c) (rows d)))\<rparr>"

text \<open>
  An instance of the parameter, with which the program is run on the sample data below:
  insertion sort on the values paired with their positions.
\<close>

definition stable_argsort :: argsort where
  "stable_argsort xs = map snd (sort_key fst (zip xs [0..<length xs]))"

text \<open>A leaderboard is a frame with its index labels, the ranks.\<close>

record leaderboard =
  lb_columns :: "string list"
  lb_index :: "int list"
  lb_rows :: "row list"

text \<open>\<^verbatim>\<open>reset_index(drop=True)\<close>, then \<^verbatim>\<open>index = index + 1\<close>.\<close>

definition reset_index :: "df \<Rightarrow> leaderboard" where
  "reset_index d =
     \<lparr>lb_columns = columns d, lb_index = map int [0..<length (rows d)], lb_rows = rows d\<rparr>"

definition index_plus :: "int \<Rightarrow> leaderboard \<Rightarrow> leaderboard" where
  "index_plus n lb = lb\<lparr>lb_index := map (\<lambda>i. i + n) (lb_index lb)\<rparr>"

section \<open>The statistic dictionaries\<close>

definition OFFENSE_STATS :: "(string \<times> string) list" where
  "OFFENSE_STATS =
     [(''Passing Yards'', ''passing_yards''), (''Passing TDs'', ''passing_tds''),
      (''Interceptions Thrown'', ''interceptions''), (''Sacks Taken'', ''sacks''),
      (''Rushing Yards'', ''rushing_yards''), (''Rushing TDs'', ''rushing_tds''),
      (''Receptions'', ''receptions''), (''Receiving Yards'', ''receiving_yards''),
      (''Receiving TDs'', ''receiving_tds'')]"

definition DEFENSE_STATS :: "(string \<times> string) list" where
  "DEFENSE_STATS =
     [(''Sacks'', ''sacks''), (''Interceptions'', ''interceptions''),
      (''Passes Defended'', ''passes_defended''), (''Forced Fumbles'', ''fumbles_forced''),
      (''Fumbles Recovered'', ''fumbles_recovered'')]"

definition NGS_TRANSLATIONS :: "(string \<times> string) list" where
  "NGS_TRANSLATIONS =
     [(''avg_time_to_throw'', ''Avg Time to Throw (sec)''),
      (''avg_completed_air_yards'', ''Avg Completed Air Yards''),
      (''avg_intended_air_yards'', ''Avg Intended Air Yards''),
      (''efficiency'', ''Rushing Efficiency''),
      (''rush_yards_over_expected'', ''Rush Yards Over Expected'')]"

text \<open>
  \<^verbatim>\<open>d[k]\<close> on a dict; the key is what a select box returned, \<open>None\<close> when the box had
  no option to offer.
\<close>

definition lookup :: "(string \<times> 'a) list \<Rightarrow> string option \<Rightarrow> error + 'a" where
  "lookup m k =
     (case k of
        None \<Rightarrow> Inl (KeyError ''None'')
      | Some s \<Rightarrow> (case map_of (rev m) s of Some v \<Rightarrow> Inr v | None \<Rightarrow> Inl (KeyError s)))"

text \<open>\<^verbatim>\<open>sub in s\<close> on strings.\<close>

primrec contains :: "string \<Rightarrow> string \<Rightarrow> bool" where
  "contains [] sub = (sub = [])"
| "contains (c # s) sub = (take (length sub) (c # s) = sub \<or> contains s sub)"

section \<open>Top performers\<close>

datatype season_type = All | Regular_Season | Postseason

datatype category = Offense | Defense | Next_Gen_Stats

datatype ngs_category = Passing | Rushing | Receiving

text \<open>\<^verbatim>\<open>leaderboard[stat_column] > 0\<close>: false on a missing value.\<close>

fun positive :: "cell \<Rightarrow> bool" where
  "positive (Num q) = (0 < q)"
| "positive _ = False"

text \<open>The defence branch, from the test of the column to the ranked frame.\<close>

definition defense_leaderboard :: "argsort \<Rightarrow> df \<Rightarrow> string \<Rightarrow> error + leaderboard option" where
  "defense_leaderboard argsort defensive_df stat_column =
     (if stat_column \<in> set (columns defensive_df)
      then
        (let leaderboard = sort_values argsort stat_column defensive_df;
             leaderboard = head 20 (loc (\<lambda>r. positive (get r stat_column)) leaderboard);
             display_cols = [pdn, ''position'', stat_column]
         in case select_columns display_cols leaderboard of
              Inl e \<Rightarrow> Inl e
            | Inr shown \<Rightarrow> Inr (Some (index_plus 1 (reset_index shown))))
      else Inr None)"

text \<open>
  The block shared by the offence and the Next Gen Stats branches. The choice between
  sum and mean is computed and not used: the groups are summed.
\<close>

definition leaders :: "argsort \<Rightarrow> df \<Rightarrow> string list \<Rightarrow> string \<Rightarrow> string list \<Rightarrow> error + leaderboard option" where
  "leaders argsort df_for_leaders groupby_cols stat_column display_cols =
     (if stat_column \<in> set (columns df_for_leaders) \<and> \<not> empty df_for_leaders
      then
        (let aggregation = (if \<not> contains stat_column ''avg'' then ''sum'' else ''mean'')
         in case filter (\<lambda>c. c \<notin> set (columns df_for_leaders)) groupby_cols of
              c # _ \<Rightarrow> Inl (KeyError c)
            | [] \<Rightarrow>
               (let leaderboard = groupby_sum groupby_cols stat_column df_for_leaders;
                    leaderboard = head 20 (sort_values argsort stat_column leaderboard)
                in case select_columns display_cols leaderboard of
                     Inl e \<Rightarrow> Inl e
                   | Inr shown \<Rightarrow> Inr (Some (index_plus 1 (reset_index leaderboard)))))
      else Inr None)"

text \<open>The week filter of the slider: \<^verbatim>\<open>(week >= lo) & (week <= hi)\<close>.\<close>

definition in_weeks :: "int \<times> int \<Rightarrow> row \<Rightarrow> bool" where
  "in_weeks week_range r =
     (case get r ''week'' of
        Num w \<Rightarrow> of_int (fst week_range) \<le> w \<and> w \<le> of_int (snd week_range)
      | _ \<Rightarrow> False)"

text \<open>
  \<^verbatim>\<open>ngs_stat_cols\<close>: the translated columns of the frame, display name first.
\<close>

definition ngs_stat_cols :: "df \<Rightarrow> (string \<times> string) list" where
  "ngs_stat_cols d =
     map (\<lambda>col. (case map_of (rev NGS_TRANSLATIONS) col of Some t \<Rightarrow> t | None \<Rightarrow> col, col))
         (filter (\<lambda>col. col \<in> set (map fst NGS_TRANSLATIONS)) (columns d))"

text \<open>
  The first tab. Its result is the charted frame with the charted column, or nothing
  when no leaderboard is drawn. The widgets' values are arguments: the category, the
  Next Gen Stats category, the statistic chosen in the select box and the week range of
  the slider (whose bounds, the least and greatest week, are not modelled).
\<close>

definition tab1 ::
  "argsort \<Rightarrow> df \<Rightarrow> (ngs_category \<Rightarrow> df) \<Rightarrow> df \<Rightarrow> int \<Rightarrow> category \<Rightarrow> ngs_category \<Rightarrow> string option
     \<Rightarrow> int \<times> int \<Rightarrow> error + (leaderboard \<times> string) option" where
  "tab1 argsort weekly_df ngs_data_raw defensive_df selected_year main_category ngs_type
        sub_category_key week_range =
     (if main_category = Defense
      then
        (case lookup DEFENSE_STATS sub_category_key of
           Inl e \<Rightarrow> Inl e
         | Inr stat_column \<Rightarrow>
             (case defense_leaderboard argsort defensive_df stat_column of
                Inl e \<Rightarrow> Inl e
              | Inr None \<Rightarrow> Inr None
              | Inr (Some lb) \<Rightarrow> Inr (Some (lb, stat_column))))
      else if ''week'' \<notin> set (columns weekly_df) then Inl (KeyError ''week'')
      else
        (let df_for_leaders = loc (in_weeks week_range) weekly_df
         in if main_category = Offense
            then
              (case lookup OFFENSE_STATS sub_category_key of
                 Inl e \<Rightarrow> Inl e
               | Inr stat_column \<Rightarrow>
                   (case leaders argsort df_for_leaders [pdn, ''position''] stat_column
                           [pdn, ''position'', stat_column] of
                      Inl e \<Rightarrow> Inl e
                    | Inr None \<Rightarrow> Inr None
                    | Inr (Some lb) \<Rightarrow> Inr (Some (lb, stat_column))))
            else
              (let df_for_leaders = ngs_data_raw ngs_type
               in if ''season'' \<notin> set (columns df_for_leaders) then Inl (KeyError ''season'')
                  else
                    (let df_for_leaders =
                           loc (\<lambda>r. get r ''season'' = Num (of_int selected_year)) df_for_leaders
                     in case lookup (ngs_stat_cols df_for_leaders) sub_category_key of
                          Inl e \<Rightarrow> Inl e
                        | Inr stat_column \<Rightarrow>
                            (case leaders argsort df_for_leaders [pdn] stat_column
                                    [pdn, stat_column] of
                               Inl e \<Rightarrow> Inl e
                             | Inr None \<Rightarrow> Inr None
                             | Inr (Some lb) \<Rightarrow> Inr (Some (lb, stat_column)))))))"

text \<open>
  The script down to the first tab: the defensive frame is built from the year's plays,
  the weekly frame is cut to the season type, and the script stops when nothing is left
  of it. \<^verbatim>\<open>sorted\<close> on the players' names fails when texts and numbers meet.
\<close>

definition season_filter :: "season_type \<Rightarrow> df \<Rightarrow> error + df" where
  "season_filter season_type_toggle weekly_df_raw =
     (if season_type_toggle = Regular_Season
      then if ''season_type'' \<notin> set (columns weekly_df_raw) then Inl (KeyError ''season_type'')
           else Inr (loc (\<lambda>r. get r ''season_type'' = Str ''REG'') weekly_df_raw)
      else if season_type_toggle = Postseason
      then if ''season_type'' \<notin> set (columns weekly_df_raw) then Inl (KeyError ''season_type'')
           else Inr (loc (\<lambda>r. get r ''season_type'' = Str ''POST'') weekly_df_raw)
      else Inr weekly_df_raw)"

fun is_text :: "cell \<Rightarrow> bool" where
  "is_text (Str s) = True"
| "is_text _ = False"

definition all_players :: "df \<Rightarrow> error + cell list" where
  "all_players weekly_df =
     (if pdn \<notin> set (columns weekly_df) then Inl (KeyError pdn)
      else
        (let names = remdups (map (\<lambda>r. get r pdn) (rows weekly_df))
         in if list_ex is_text names \<and> list_ex (\<lambda>n. \<not> is_text n) names then Inl TypeError
            else Inr (sort_key cell_key names)))"

datatype 'a page = Stopped | Shown 'a

definition top_performers ::
  "argsort \<Rightarrow> season_type \<Rightarrow> df \<Rightarrow> (ngs_category \<Rightarrow> df) \<Rightarrow> df \<Rightarrow> df \<Rightarrow> int \<Rightarrow> category
     \<Rightarrow> ngs_category \<Rightarrow> string option \<Rightarrow> int \<times> int \<Rightarrow> error + (leaderboard \<times> string) option page" where
  "top_performers argsort season_type_toggle weekly_df_raw ngs_data_raw pbp_df rosters_df
        selected_year main_category ngs_type sub_category_key week_range =
     (case load_and_aggregate_pbp_data pbp_df rosters_df of
        Inl e \<Rightarrow> Inl e
      | Inr defensive_df_raw \<Rightarrow>
          (case season_filter season_type_toggle weekly_df_raw of
             Inl e \<Rightarrow> Inl e
           | Inr weekly_df \<Rightarrow>
               (let defensive_df = defensive_df_raw
                in if empty weekly_df then Inr Stopped
                   else
                     (case all_players weekly_df of
                        Inl e \<Rightarrow> Inl e
                      | Inr players \<Rightarrow>
                          (case tab1 argsort weekly_df ngs_data_raw defensive_df selected_year
                                  main_category ngs_type sub_category_key week_range of
                             Inl e \<Rightarrow> Inl e
                           | Inr chart \<Rightarrow> Inr (Shown chart))))))"

section \<open>Player search\<close>

text \<open>
  The second tab for a chosen player and a chosen week range: the columns with data,
  the full-season totals, and the totals of the range. The two tables are series, a
  list of column and value; each is absent when the script does not draw it. The bounds
  of the slider are not modelled.
\<close>

record player_stats =
  cols_with_data :: "string list"
  agg_stats :: "(string \<times> int) list option"
  range_agg_stats :: "(string \<times> int) list option"
  per_game :: "df option"

definition column_sum :: "df \<Rightarrow> string \<Rightarrow> rat" where
  "column_sum d col = series_sum (map (\<lambda>r. get r col) (rows d))"

definition tab2 :: "df \<Rightarrow> string \<Rightarrow> int \<times> int \<Rightarrow> error + player_stats option" where
  "tab2 weekly_df player_name player_week_range =
     (if player_name = [] then Inr None
      else if pdn \<notin> set (columns weekly_df) then Inl (KeyError pdn)
      else
        (let player_weekly_stats = loc (\<lambda>r. get r pdn = Str player_name) weekly_df;
             cols_with_data =
               filter (\<lambda>col. col \<in> set (columns player_weekly_stats)
                              \<and> 0 < column_sum player_weekly_stats col)
                      (map snd OFFENSE_STATS)
         in if cols_with_data = []
            then Inr (Some \<lparr>cols_with_data = cols_with_data, agg_stats = None,
                            range_agg_stats = None, per_game = None\<rparr>)
            else if ''week'' \<notin> set (columns player_weekly_stats) then Inl (KeyError ''week'')
            else
              (let agg_stats =
                     map (\<lambda>col. (col, py_int (column_sum player_weekly_stats col))) cols_with_data;
                   player_filtered_df = loc (in_weeks player_week_range) player_weekly_stats;
                   range_agg_stats =
                     map (\<lambda>col. (col, column_sum player_filtered_df col)) cols_with_data;
                   range_agg_stats =
                     map (\<lambda>(col, v). (col, py_int v)) (filter (\<lambda>(col, v). 0 < v) range_agg_stats)
               in case select_columns (''week'' # cols_with_data) player_weekly_stats of
                    Inl e \<Rightarrow> Inl e
                  | Inr shown \<Rightarrow>
                      Inr (Some \<lparr>cols_with_data = cols_with_data, agg_stats = Some agg_stats,
                                 range_agg_stats = Some range_agg_stats,
                                 per_game = Some shown\<rparr>))))"

section \<open>Sample data\<close>

text \<open>
  A small season, used below to run the program: five plays with a sack (three by B, one
  by C, who also forces a fumble that B recovers, and one with no player named), an
  interception by A, who is credited with the pass defended, and a pass defended by C;
  a roster in which B is listed twice; the regular-season weeks of the players A
  (passing yards 100, 0 and 50) and E; and the passing frame of the Next Gen Stats with
  two games of A and one of F in 2024 and one game of A in 2023.
\<close>

definition pbp_columns :: "string list" where
  "pbp_columns =
     [''sack'', ''sack_player_name'', ''interception'', ''interception_player_name'',
      ''fumble_forced'', ''forced_fumble_player_1_player_name'',
      ''pass_defense_1_player_name'', ''fumble'', ''fumble_recovery_1_player_name'']"

definition sample_pbp :: df where
  "sample_pbp =
     \<lparr>columns = pbp_columns,
      rows = map (zip pbp_columns)
        [[Num 1, Str ''B'', Num 0, NaN, Num 0, NaN, NaN, Num 0, NaN],
         [Num 1, Str ''C'', Num 0, NaN, Num 1, Str ''C'', NaN, Num 1, Str ''B''],
         [Num 1, Str ''B'', Num 0, NaN, Num 0, NaN, NaN, Num 0, NaN],
         [Num 0, NaN, Num 1, Str ''A'', Num 0, NaN, Str ''A'', Num 0, NaN],
         [Num 1, NaN, Num 0, NaN, Num 0, NaN, NaN, Num 0, NaN],
         [Num 0, NaN, Num 0, NaN, Num 0, NaN, Str ''C'', Num 0, NaN],
         [Num 1, Str ''B'', Num 0, NaN, Num 0, NaN, NaN, Num 0, NaN]]\<rparr>"

definition sample_rosters :: df where
  "sample_rosters =
     \<lparr>columns = [''player_name'', ''team'', ''position''],
      rows = map (zip [''player_name'', ''team'', ''position''])
        [[Str ''B'', Str ''NYJ'', Str ''DE''],
         [Str ''C'', Str ''NYJ'', Str ''CB''],
         [Str ''B'', Str ''NYG'', Str ''LB'']]\<rparr>"

definition weekly_columns :: "string list" where
  "weekly_columns =
     [pdn, ''position'', ''season_type'', ''week'', ''passing_yards'', ''rushing_yards'']"

definition sample_weekly :: df where
  "sample_weekly =
     \<lparr>columns = weekly_columns,
      rows = map (zip weekly_columns)
        [[Str ''A'', Str ''QB'', Str ''REG'', Num 1, Num 100, Num 0],
         [Str ''E'', Str ''RB'', Str ''REG'', Num 1, Num 0, Num 80],
         [Str ''A'', Str ''QB'', Str ''REG'', Num 2, Num 0, Num 0],
         [Str ''E'', Str ''RB'', Str ''REG'', Num 2, Num 0, Num 20],
         [Str ''A'', Str ''QB'', Str ''REG'', Num 3, Num 50, Num 0]]\<rparr>"

definition ngs_columns :: "string list" where
  "ngs_columns = [''season'', ''week'', pdn, ''avg_time_to_throw'']"

definition sample_ngs :: "ngs_category \<Rightarrow> df" where
  "sample_ngs kind =
     (if kind = Passing
      then \<lparr>columns = ngs_columns,
            rows = map (zip ngs_columns)
              [[Num 2024, Num 1, Str ''A'', Num 2],
               [Num 2024, Num 1, Str ''F'', Num 3],
               [Num 2024, Num 2, Str ''A'', Num 4],
               [Num 2023, Num 1, Str ''A'', Num 9]]\<rparr>
      else \<lparr>columns = [''season'', ''week'', pdn, ''efficiency''], rows = []\<rparr>)"

text \<open>The defensive frame of the sample season, as the program builds it.\<close>

definition sample_defense :: df where
  "sample_defense =
     \<lparr>columns = [pdn, ''sacks'', ''interceptions'', ''fumbles_forced'', ''passes_defended'',
                 ''fumbles_recovered'', ''position''],
      rows = map (zip [pdn, ''sacks'', ''interceptions'', ''fumbles_forced'', ''passes_defended'',
                       ''fumbles_recovered'', ''position''])
        [[Str ''A'', Num 0, Num 1, Num 0, Num 1, Num 0, NaN],
         [Str ''B'', Num 3, Num 0, Num 0, Num 0, Num 1, Str ''DE''],
         [Str ''C'', Num 1, Num 0, Num 1, Num 1, Num 0, Str ''CB'']]\<rparr>"

text \<open>The frames of the five statistics of the sample season.\<close>

definition sample_sacks :: df where
  "sample_sacks =
     \<lparr>columns = [pdn, ''sacks''],
      rows = [[(pdn, Str ''B''), (''sacks'', Num 3)], [(pdn, Str ''C''), (''sacks'', Num 1)]]\<rparr>"

definition sample_interceptions :: df where
  "sample_interceptions =
     \<lparr>columns = [pdn, ''interceptions''],
      rows = [[(pdn, Str ''A''), (''interceptions'', Num 1)]]\<rparr>"

definition sample_tables :: "df list" where
  "sample_tables =
     [sample_sacks,
      sample_interceptions,
      \<lparr>columns = [pdn, ''fumbles_forced''],
       rows = [[(pdn, Str ''C''), (''fumbles_forced'', Num 1)]]\<rparr>,
      \<lparr>columns = [pdn, ''passes_defended''],
       rows = [[(pdn, Str ''A''), (''passes_defended'', Num 1)],
               [(pdn, Str ''C''), (''passes_defended'', Num 1)]]\<rparr>,
      \<lparr>columns = [pdn, ''fumbles_recovered''],
       rows = [[(pdn, Str ''B''), (''fumbles_recovered'', Num 1)]]\<rparr>]"

text \<open>Three leaderboards of the sample season.\<close>

definition sample_sack_leaders :: leaderboard where
  "sample_sack_leaders =
     \<lparr>lb_columns = [pdn, ''position'', ''sacks''], lb_index = [1, 2],
      lb_rows = [[(pdn, Str ''B''), (''position'', Str ''DE''), (''sacks'', Num 3)],
                 [(pdn, Str ''C''), (''position'', Str ''CB''), (''sacks'', Num 1)]]\<rparr>"

definition sample_passing_leaders :: leaderboard where
  "sample_passing_leaders =
     \<lparr>lb_columns = [pdn, ''position'', ''passing_yards''], lb_index = [1, 2],
      lb_rows = [[(pdn, Str ''A''), (''position'', Str ''QB''), (''passing_yards'', Num 50)],
                 [(pdn, Str ''E''), (''position'', Str ''RB''), (''passing_yards'', Num 0)]]\<rparr>"

definition sample_ngs_leaders :: leaderboard where
  "sample_ngs_leaders =
     \<lparr>lb_columns = [pdn, ''avg_time_to_throw''], lb_index = [1, 2],
      lb_rows = [[(pdn, Str ''A''), (''avg_time_to_throw'', Num 6)],
                 [(pdn, Str ''F''), (''avg_time_to_throw'', Num 3)]]\<rparr>"

text \<open>
  The second tab for player A, who has 150 passing yards in the season; the table of the
  chosen weeks is the argument.
\<close>

definition sample_summary :: "(string \<times> int) list \<Rightarrow> player_stats" where
  "sample_summary in_range =
     \<lparr>cols_with_data = [''passing_yards''],
      agg_stats = Some [(''passing_yards'', 150)],
      range_agg_stats = Some in_range,
      per_game = Some
        \<lparr>columns = [''week'', ''passing_yards''],
         rows = map (zip [''week'', ''passing_yards''])
                  [[Num 1, Num 100], [Num 2, Num 0], [Num 3, Num 50]]\<rparr>\<rparr>"

text \<open>
  The offence leaderboard of the passing yards when the slider is set to the weeks 1
  to 1.
\<close>

definition sample_week1_leaders :: leaderboard where
  "sample_week1_leaders =
     \<lparr>lb_columns = [pdn, ''position'', ''passing_yards''], lb_index = [1, 2],
      lb_rows = [[(pdn, Str ''A''), (''position'', Str ''QB''), (''passing_yards'', Num 100)],
                 [(pdn, Str ''E''), (''position'', Str ''RB''), (''passing_yards'', Num 0)]]\<rparr>"

text \<open>
  Plays with the two columns of the sacks and none of the other statistics, one sack by
  B; and the defensive frame the program builds from them.
\<close>

definition sample_sack_plays :: df where
  "sample_sack_plays =
     \<lparr>columns = [''sack'', ''sack_player_name''],
      rows = [[(''sack'', Num 1), (''sack_player_name'', Str ''B'')]]\<rparr>"

definition sample_sack_defense :: df where
  "sample_sack_defense =
     \<lparr>columns = [pdn, ''sacks'', ''position''],
      rows = [[(pdn, Str ''B''), (''sacks'', Num 1), (''position'', Str ''DE'')]]\<rparr>"

text \<open>
  The same play in a frame that names the player of the sack and has no column
  \<^verbatim>\<open>sack\<close>; a roster without positions; and tracking frames with nothing in them, and
  with a game of A and no column the program has a display name for.
\<close>

definition sample_unflagged_plays :: df where
  "sample_unflagged_plays =
     \<lparr>columns = [''sack_player_name''], rows = [[(''sack_player_name'', Str ''B'')]]\<rparr>"

definition sample_roster_names :: df where
  "sample_roster_names =
     \<lparr>columns = [''player_name''], rows = [[(''player_name'', Str ''B'')]]\<rparr>"

definition sample_ngs_empty :: "ngs_category \<Rightarrow> df" where
  "sample_ngs_empty kind = DataFrame"

definition sample_ngs_untranslated :: "ngs_category \<Rightarrow> df" where
  "sample_ngs_untranslated kind =
     \<lparr>columns = [''season'', ''week'', pdn, ''avg_cushion''],
      rows = [zip [''season'', ''week'', pdn, ''avg_cushion'']
                  [Num 2024, Num 1, Str ''A'', Num 5]]\<rparr>"

section \<open>Notions used in the proofs\<close>

text \<open>The players of a frame, in the order of its rows.\<close>

definition keys :: "df \<Rightarrow> cell list" where
  "keys d = map (\<lambda>r. get r pdn) (rows d)"

text \<open>
  The frame of one statistic: a player column and a counter column, one row for each
  player, the counter a natural number.
\<close>

definition kind_table :: "string \<Rightarrow> df \<Rightarrow> bool" where
  "kind_table s t \<longleftrightarrow>
     columns t = [pdn, s] \<and> distinct (keys t)
     \<and> (\<forall>r\<in>set (rows t). \<exists>c n. c \<noteq> NaN \<and> r = [(pdn, c), (s, Num (of_nat n))])"

text \<open>What the proofs need of an entry of \<^verbatim>\<open>def_stats_dict\<close>.\<close>

definition kind_ok :: "string \<times> string \<times> string \<Rightarrow> bool" where
  "kind_ok e \<longleftrightarrow> (case e of (s, f, p) \<Rightarrow>
      s \<noteq> p \<and> s \<noteq> f \<and> s \<noteq> pdn \<and> s \<noteq> ''position''
      \<and> (s \<in> set [''passes_defended'', ''fumbles_recovered''] \<or> f \<noteq> p))"

text \<open>
  The mean of a series, as pandas takes it: over the values that are not missing. The
  program never computes it; it is what a leaderboard of averaged metrics would show.
\<close>

definition series_mean :: "cell list \<Rightarrow> rat" where
  "series_mean xs = series_sum xs / of_nat (length (filter (\<lambda>x. x \<noteq> NaN) xs))"

text \<open>The cell of a keyed frame for a player and a column, missing when the player has no row.\<close>

definition cell_at :: "df \<Rightarrow> cell \<Rightarrow> string \<Rightarrow> cell" where
  "cell_at t k c = (case find (\<lambda>r. get r pdn = k) (rows t) of Some r \<Rightarrow> get r c | None \<Rightarrow> NaN)"

text \<open>
  The outer join of the frames of the statistics \<open>sts\<close>, each given with the name of
  its counter: the player column and the counters in order, every row laid out by the
  columns, one row for each player of any of the frames, and in it the cells of the
  frames.
\<close>

definition merged :: "(string \<times> df) list \<Rightarrow> df \<Rightarrow> bool" where
  "merged sts m \<longleftrightarrow>
     columns m = pdn # map fst sts
     \<and> (\<forall>x\<in>set (rows m). map fst x = columns m)
     \<and> distinct (keys m)
     \<and> set (keys m) = (\<Union>st\<in>set sts. set (keys (snd st)))
     \<and> (\<forall>x\<in>set (rows m). \<forall>st\<in>set sts. get x (fst st) = cell_at (snd st) (get x pdn) (fst st))"

text \<open>
  A player's total of a statistic over the whole season, and over the weeks of a range
  (both ends included), written out from the weekly rows.
\<close>

definition season_total :: "df \<Rightarrow> string \<Rightarrow> string \<Rightarrow> rat" where
  "season_total d player col =
     sum_list (map (\<lambda>r. num_of (get r col)) (filter (\<lambda>r. get r pdn = Str player) (rows d)))"

definition range_total :: "df \<Rightarrow> string \<Rightarrow> int \<times> int \<Rightarrow> string \<Rightarrow> rat" where
  "range_total d player week_range col =
     sum_list (map (\<lambda>r. num_of (get r col))
       (filter (\<lambda>r. get r pdn = Str player
                    \<and> (\<exists>w. get r ''week'' = Num w \<and> of_int (fst week_range) \<le> w
                            \<and> w \<le> of_int (snd week_range)))
               (rows d)))"

section \<open>Rows and sorting\<close>

lemma get_mk_row: "get (mk_row cs f) c = (if c \<in> set cs then f c else NaN)"
  by (simp add: get_def mk_row_def map_of_map_restrict restrict_map_def)

lemma argsort_ok_set:
  assumes "argsort_ok a"
  shows "set (a xs) = {0..<length xs}"
proof -
  from assms have "mset (a xs) = mset [0..<length xs]" by (simp add: argsort_ok_def)
  then have "set (a xs) = set [0..<length xs]" by (rule mset_eq_setD)
  then show ?thesis by simp
qed

lemma mset_map_nth_perm:
  assumes "mset p = mset [0..<length xs]"
  shows "mset (map (\<lambda>i. xs ! i) p) = mset xs"
proof -
  have "mset (map (\<lambda>i. xs ! i) p) = image_mset (\<lambda>i. xs ! i) (mset p)" by simp
  also have "\<dots> = image_mset (\<lambda>i. xs ! i) (mset [0..<length xs])" using assms by simp
  also have "\<dots> = mset (map (\<lambda>i. xs ! i) [0..<length xs])" by simp
  also have "\<dots> = mset xs" by (simp add: map_nth)
  finally show ?thesis .
qed

lemma mset_filter_both:
  "mset (filter P xs) + mset (filter (\<lambda>x. \<not> P x) xs) = mset xs"
  by (induction xs) auto

lemma nargsort_mset:
  assumes "argsort_ok a"
  shows "mset (nargsort a items) = mset [0..<length items]"
proof -
  define nn where "nn = rev (filter (\<lambda>i. items ! i \<noteq> NaN) [0..<length items])"
  define vals where "vals = map (\<lambda>i. num_of (items ! i)) nn"
  have len: "length vals = length nn" by (simp add: vals_def)
  from assms have "mset (a vals) = mset [0..<length nn]"
    by (simp add: argsort_ok_def len)
  then have "mset (map (\<lambda>j. nn ! j) (a vals)) = mset nn" by (rule mset_map_nth_perm)
  then have "mset (nargsort a items) =
      mset (filter (\<lambda>i. items ! i \<noteq> NaN) [0..<length items])
      + mset (filter (\<lambda>i. \<not> items ! i \<noteq> NaN) [0..<length items])"
    by (simp add: nargsort_def Let_def nn_def vals_def del: mset_upt)
  also have "\<dots> = mset [0..<length items]"
    by (rule mset_filter_both)
  finally show ?thesis .
qed

lemma sort_values_mset:
  assumes "argsort_ok a"
  shows "mset (rows (sort_values a c d)) = mset (rows d)"
proof -
  have "mset (nargsort a (map (\<lambda>r. get r c) (rows d))) = mset [0..<length (rows d)]"
    using nargsort_mset [OF assms, of "map (\<lambda>r. get r c) (rows d)"] by (simp del: mset_upt)
  then have "mset (map (\<lambda>i. rows d ! i) (nargsort a (map (\<lambda>r. get r c) (rows d)))) = mset (rows d)"
    by (rule mset_map_nth_perm)
  then show ?thesis
    by (simp add: sort_values_def)
qed

lemma sort_values_set:
  "argsort_ok a \<Longrightarrow> set (rows (sort_values a c d)) = set (rows d)"
  by (metis sort_values_mset set_mset_mset)

lemma sort_values_length:
  "argsort_ok a \<Longrightarrow> length (rows (sort_values a c d)) = length (rows d)"
  by (metis sort_values_mset size_mset)

lemma sort_values_columns: "columns (sort_values a c d) = columns d"
  by (simp add: sort_values_def)

text \<open>The sorted frame: the rows with a value, in descending order, then the rows without.\<close>

lemma sort_values_split:
  assumes "argsort_ok a"
  shows "\<exists>X Y. rows (sort_values a c d) = X @ Y
    \<and> sorted_wrt (\<lambda>x y. num_of (get y c) \<le> num_of (get x c)) X
    \<and> (\<forall>x\<in>set X. get x c \<noteq> NaN) \<and> (\<forall>y\<in>set Y. get y c = NaN)"
proof -
  define items where "items = map (\<lambda>r. get r c) (rows d)"
  define nn where "nn = rev (filter (\<lambda>i. items ! i \<noteq> NaN) [0..<length items])"
  define vals where "vals = map (\<lambda>i. num_of (items ! i)) nn"
  define A where "A = map (\<lambda>j. nn ! j) (a vals)"
  define B where "B = filter (\<lambda>i. items ! i = NaN) [0..<length items]"
  have len: "length vals = length nn" by (simp add: vals_def)
  have n: "length items = length (rows d)" by (simp add: items_def)
  have pset: "set (a vals) = {0..<length nn}"
    using argsort_ok_set [OF assms, of vals] by (simp add: len)
  have nn_set: "set nn = {i. i < length items \<and> items ! i \<noteq> NaN}"
    by (auto simp: nn_def)
  have A_set: "set A \<subseteq> set nn"
    using pset by (auto simp: A_def)
  have rows_eq: "rows (sort_values a c d) = map (\<lambda>i. rows d ! i) (rev A) @ map (\<lambda>i. rows d ! i) B"
    by (simp add: sort_values_def nargsort_def Let_def A_def B_def nn_def vals_def items_def rev_map)
  have val: "get (rows d ! i) c = items ! i" if "i < length items" for i
    using that by (simp add: items_def)
  have "map (\<lambda>i. num_of (items ! i)) A = map (\<lambda>j. vals ! j) (a vals)"
    using pset by (auto simp: A_def vals_def)
  moreover have "sorted (map (\<lambda>j. vals ! j) (a vals))"
    using assms by (simp add: argsort_ok_def)
  ultimately have "sorted (map (\<lambda>i. num_of (items ! i)) A)" by simp
  then have "sorted_wrt (\<lambda>x y. y \<le> x) (rev (map (\<lambda>i. num_of (items ! i)) A))"
    by (simp add: sorted_wrt_rev)
  then have "sorted_wrt (\<lambda>i j. num_of (items ! j) \<le> num_of (items ! i)) (rev A)"
    by (simp add: rev_map sorted_wrt_map)
  moreover have "\<forall>i\<in>set (rev A). i < length items" using A_set nn_set by auto
  ultimately have s: "sorted_wrt (\<lambda>x y. num_of (get y c) \<le> num_of (get x c)) (map (\<lambda>i. rows d ! i) (rev A))"
    unfolding sorted_wrt_map
    by (rule_tac sorted_wrt_mono_rel [rotated]) (auto simp: val)
  have x: "\<forall>x\<in>set (map (\<lambda>i. rows d ! i) (rev A)). get x c \<noteq> NaN"
    using A_set nn_set by (auto simp: val)
  have y: "\<forall>y\<in>set (map (\<lambda>i. rows d ! i) B). get y c = NaN"
    by (auto simp: B_def val)
  from rows_eq s x y show ?thesis by blast
qed

lemma zip_upt_nth:
  assumes "p \<in> set (zip xs [0..<length xs])"
  shows "xs ! snd p = fst p"
proof -
  from assms obtain i where "i < length xs" "p = (xs ! i, [0..<length xs] ! i)"
    by (auto simp: set_zip)
  then show ?thesis by simp
qed

lemma argsort_ok_stable: "argsort_ok stable_argsort"
  unfolding argsort_ok_def
proof (intro allI conjI)
  fix xs :: "rat list"
  define zs where "zs = zip xs [0..<length xs]"
  have "mset (map snd (sort_key fst zs)) = mset (map snd zs)"
    by simp
  then show "mset (stable_argsort xs) = mset [0..<length xs]"
    by (simp add: stable_argsort_def zs_def del: mset_upt mset_map)
  have "map (\<lambda>i. xs ! i) (map snd (sort_key fst zs)) = map fst (sort_key fst zs)"
    by (auto simp: zs_def zip_upt_nth)
  moreover have "sorted (map fst (sort_key fst zs))" by simp
  ultimately have "sorted (map (\<lambda>i. xs ! i) (map snd (sort_key fst zs)))" by (simp only:)
  then show "sorted (map (\<lambda>i. xs ! i) (stable_argsort xs))"
    by (simp only: stable_argsort_def zs_def)
qed

section \<open>Leaderboards\<close>

lemma select_columns_Inr:
  assumes "select_columns cs d = Inr s"
  shows "columns s = cs" and "rows s = map (\<lambda>r. mk_row cs (get r)) (rows d)"
    and "set cs \<subseteq> set (columns d)"
  using assms by (auto simp: select_columns_def filter_empty_conv split: list.splits)

lemma select_columns_ok:
  assumes "set cs \<subseteq> set (columns d)"
  shows "select_columns cs d = Inr \<lparr>columns = cs, rows = map (\<lambda>r. mk_row cs (get r)) (rows d)\<rparr>"
proof -
  have "filter (\<lambda>c. c \<notin> set (columns d)) cs = []"
    using assms by (auto simp: filter_empty_conv)
  then show ?thesis by (simp add: select_columns_def)
qed

lemma index_ranks:
  "lb_index (index_plus 1 (reset_index d)) = map int [1..<Suc (length (rows d))]"
proof -
  have "map int [1..<Suc (length (rows d))] = map int (map Suc [0..<length (rows d)])"
    by (simp only: map_Suc_upt One_nat_def)
  then show ?thesis
    by (simp add: index_plus_def reset_index_def)
qed

lemma lb_rows_ranked: "lb_rows (index_plus n (reset_index d)) = rows d"
  by (simp add: index_plus_def reset_index_def)

lemma positive_Num: "positive x \<Longrightarrow> \<exists>q. x = Num q \<and> 0 < q"
  by (cases x) auto

lemma defense_leaderboard_ordered:
  assumes ok: "argsort_ok a"
    and res: "defense_leaderboard a d stat = Inr (Some lb)"
  shows "sorted_wrt (\<lambda>x y. num_of (get y stat) \<le> num_of (get x stat)) (lb_rows lb)"
    and "\<forall>r\<in>set (lb_rows lb). positive (get r stat)"
    and "length (lb_rows lb) \<le> 20"
    and "lb_index lb = map int [1..<Suc (length (lb_rows lb))]"
proof -
  define L where "L = head 20 (loc (\<lambda>r. positive (get r stat)) (sort_values a stat d))"
  from res obtain shown where sel: "select_columns [pdn, ''position'', stat] L = Inr shown"
    and lb: "lb = index_plus 1 (reset_index shown)"
    by (auto simp: defense_leaderboard_def Let_def L_def split: if_splits sum.splits)
  have shown: "rows shown = map (\<lambda>r. mk_row [pdn, ''position'', stat] (get r)) (rows L)"
    using select_columns_Inr(2) [OF sel] .
  have val: "get (mk_row [pdn, ''position'', stat] (get r)) stat = get r stat" for r
    by (simp add: get_mk_row)
  from sort_values_split [OF ok, of stat d] obtain X Y where
    split: "rows (sort_values a stat d) = X @ Y"
    and srt: "sorted_wrt (\<lambda>x y. num_of (get y stat) \<le> num_of (get x stat)) X"
    and nan: "\<forall>y\<in>set Y. get y stat = NaN"
    by blast
  have "filter (\<lambda>r. positive (get r stat)) Y = []"
    using nan by (auto simp: filter_empty_conv)
  then have L_rows: "rows L = take 20 (filter (\<lambda>r. positive (get r stat)) X)"
    by (simp add: L_def head_def loc_def split)
  have "sorted_wrt (\<lambda>x y. num_of (get y stat) \<le> num_of (get x stat)) (rows L)"
    unfolding L_rows using srt by (intro sorted_wrt_take sorted_wrt_filter)
  then show "sorted_wrt (\<lambda>x y. num_of (get y stat) \<le> num_of (get x stat)) (lb_rows lb)"
    by (simp add: lb lb_rows_ranked shown sorted_wrt_map val)
  have "\<forall>r\<in>set (rows L). positive (get r stat)"
    unfolding L_rows by (auto dest: in_set_takeD)
  then show "\<forall>r\<in>set (lb_rows lb). positive (get r stat)"
    by (simp add: lb lb_rows_ranked shown val)
  show "length (lb_rows lb) \<le> 20"
    by (simp add: lb lb_rows_ranked shown L_rows)
  show "lb_index lb = map int [1..<Suc (length (lb_rows lb))]"
    by (simp only: lb index_ranks lb_rows_ranked)
qed

lemma get_append_single:
  "c \<notin> fst ` set r \<Longrightarrow> get (r @ [(c, v)]) c = v"
proof -
  assume "c \<notin> fst ` set r"
  then have "map_of r c = None" by (simp add: map_of_eq_None_iff)
  then show ?thesis by (simp add: get_def map_add_def)
qed

lemma groupby_sum_value:
  assumes "r \<in> set (rows (groupby_sum ks v d))" and "v \<notin> set ks"
  shows "\<exists>k\<in>set (group_keys ks (rows d)).
           r = zip ks k @ [(v, Num (series_sum (map (\<lambda>x. get x v) (group_rows ks (rows d) k))))]
           \<and> get r v = Num (series_sum (map (\<lambda>x. get x v) (group_rows ks (rows d) k)))"
proof -
  from assms(1) obtain k where k: "k \<in> set (group_keys ks (rows d))"
    and r: "r = zip ks k @ [(v, Num (series_sum (map (\<lambda>x. get x v) (group_rows ks (rows d) k))))]"
    by (auto simp: groupby_sum_def)
  have "v \<notin> fst ` set (zip ks k)"
    using assms(2) by (auto dest: set_zip_leftD)
  then have "get r v = Num (series_sum (map (\<lambda>x. get x v) (group_rows ks (rows d) k)))"
    unfolding r by (rule get_append_single)
  with k r show ?thesis by blast
qed

lemma leaders_Some:
  assumes "leaders a d ks stat disp = Inr (Some lb)"
  shows "lb = index_plus 1 (reset_index (head 20 (sort_values a stat (groupby_sum ks stat d))))"
    and "stat \<in> set (columns d)" and "rows d \<noteq> []" and "set ks \<subseteq> set (columns d)"
  using assms
  by (auto simp: leaders_def Let_def empty_def filter_empty_conv split: if_splits list.splits sum.splits)

lemma leaders_ordered:
  assumes ok: "argsort_ok a"
    and res: "leaders a d ks stat disp = Inr (Some lb)"
    and stat: "stat \<notin> set ks"
  shows "sorted_wrt (\<lambda>x y. num_of (get y stat) \<le> num_of (get x stat)) (lb_rows lb)"
    and "\<forall>r\<in>set (lb_rows lb). \<exists>q. get r stat = Num q"
    and "length (lb_rows lb) \<le> 20"
    and "lb_index lb = map int [1..<Suc (length (lb_rows lb))]"
proof -
  define G where "G = groupby_sum ks stat d"
  have lb: "lb = index_plus 1 (reset_index (head 20 (sort_values a stat G)))"
    using leaders_Some(1) [OF res] by (simp add: G_def)
  have rows_lb: "lb_rows lb = take 20 (rows (sort_values a stat G))"
    by (simp add: lb lb_rows_ranked head_def)
  have num: "\<exists>q. get r stat = Num q" if "r \<in> set (rows G)" for r
    using groupby_sum_value [OF that [unfolded G_def] stat] by auto
  from sort_values_split [OF ok, of stat G] obtain X Y where
    split: "rows (sort_values a stat G) = X @ Y"
    and srt: "sorted_wrt (\<lambda>x y. num_of (get y stat) \<le> num_of (get x stat)) X"
    and nan: "\<forall>y\<in>set Y. get y stat = NaN"
    by blast
  have sub: "set (rows (sort_values a stat G)) = set (rows G)"
    by (rule sort_values_set [OF ok])
  have "Y = []"
  proof (rule ccontr)
    assume "Y \<noteq> []"
    then obtain y where y: "y \<in> set Y" by (cases Y) auto
    then have "y \<in> set (rows G)" using sub split by auto
    with num nan y show False by fastforce
  qed
  with split srt have "sorted_wrt (\<lambda>x y. num_of (get y stat) \<le> num_of (get x stat)) (rows (sort_values a stat G))"
    by simp
  then show "sorted_wrt (\<lambda>x y. num_of (get y stat) \<le> num_of (get x stat)) (lb_rows lb)"
    unfolding rows_lb by (rule sorted_wrt_take)
  show "\<forall>r\<in>set (lb_rows lb). \<exists>q. get r stat = Num q"
    unfolding rows_lb using sub num by (auto dest: in_set_takeD)
  show "length (lb_rows lb) \<le> 20" by (simp add: rows_lb)
  show "lb_index lb = map int [1..<Suc (length (lb_rows lb))]"
    by (simp only: lb index_ranks lb_rows_ranked)
qed

lemma lookup_Inr:
  assumes "lookup m k = Inr v"
  shows "\<exists>s. k = Some s \<and> (s, v) \<in> set m"
proof -
  from assms obtain s where k: "k = Some s" and "map_of (rev m) s = Some v"
    by (auto simp: lookup_def split: option.splits)
  then have "(s, v) \<in> set (rev m)" by (auto dest: map_of_SomeD)
  with k show ?thesis by simp
qed

lemma lookup_ngs_stat_cols:
  assumes "lookup (ngs_stat_cols d) k = Inr v"
  shows "v \<in> set (map fst NGS_TRANSLATIONS)" and "v \<in> set (columns d)"
  using lookup_Inr [OF assms] by (auto simp: ngs_stat_cols_def)

lemma tab1_Some_cases:
  assumes "tab1 a w ngs d y cat nt key wr = Inr (Some (lb, stat))"
  shows "(cat = Defense \<and> defense_leaderboard a d stat = Inr (Some lb))
       \<or> (cat = Offense \<and> stat \<in> set (map snd OFFENSE_STATS)
            \<and> leaders a (loc (in_weeks wr) w) [pdn, ''position''] stat [pdn, ''position'', stat]
                = Inr (Some lb))
       \<or> (cat = Next_Gen_Stats \<and> stat \<in> set (map fst NGS_TRANSLATIONS)
            \<and> leaders a (loc (\<lambda>r. get r ''season'' = Num (of_int y)) (ngs nt)) [pdn] stat [pdn, stat]
                = Inr (Some lb))"
proof (cases cat)
  case Defense
  with assms show ?thesis
    by (auto simp: tab1_def split: sum.splits option.splits)
next
  case Offense
  with assms obtain s where "lookup OFFENSE_STATS key = Inr s"
    and "leaders a (loc (in_weeks wr) w) [pdn, ''position''] s [pdn, ''position'', s] = Inr (Some lb)"
    and "s = stat"
    by (auto simp: tab1_def Let_def split: sum.splits option.splits if_splits)
  moreover from this have "stat \<in> set (map snd OFFENSE_STATS)"
    by (auto dest!: lookup_Inr intro: rev_image_eqI)
  ultimately show ?thesis using Offense by simp
next
  case Next_Gen_Stats
  with assms obtain s where "lookup (ngs_stat_cols (loc (\<lambda>r. get r ''season'' = Num (of_int y)) (ngs nt))) key = Inr s"
    and "leaders a (loc (\<lambda>r. get r ''season'' = Num (of_int y)) (ngs nt)) [pdn] s [pdn, s] = Inr (Some lb)"
    and "s = stat"
    by (auto simp: tab1_def Let_def split: sum.splits option.splits if_splits)
  moreover from this have "stat \<in> set (map fst NGS_TRANSLATIONS)"
    by (auto dest: lookup_ngs_stat_cols(1))
  ultimately show ?thesis using Next_Gen_Stats by simp
qed

lemma offense_stat_not_key: "stat \<in> set (map snd OFFENSE_STATS) \<Longrightarrow> stat \<notin> set [pdn, ''position'']"
  by (auto simp: OFFENSE_STATS_def)

lemma ngs_stat_not_key: "stat \<in> set (map fst NGS_TRANSLATIONS) \<Longrightarrow> stat \<notin> set [pdn]"
  by (auto simp: NGS_TRANSLATIONS_def)

lemma get_zip_keys:
  assumes "distinct ks" and "length k = length ks" and "v \<notin> set ks"
  shows "map (get (zip ks k @ [(v, x)])) ks = k"
proof (rule nth_equalityI)
  show "length (map (get (zip ks k @ [(v, x)])) ks) = length k"
    using assms(2) by simp
next
  fix i assume "i < length (map (get (zip ks k @ [(v, x)])) ks)"
  then have i: "i < length ks" by simp
  have "map_of (zip ks k) (ks ! i) = Some (k ! i)"
    using assms(1,2) i by (intro map_of_zip_nth) auto
  then have "get (zip ks k @ [(v, x)]) (ks ! i) = k ! i"
    by (simp add: get_def map_add_def)
  with i show "map (get (zip ks k @ [(v, x)])) ks ! i = k ! i" by simp
qed

lemma group_keys_length:
  assumes "k \<in> set (group_keys ks rs)"
  shows "length k = length ks"
proof -
  from assms have "k \<in> set (map (\<lambda>r. map (get r) ks) rs)"
    by (simp add: group_keys_def)
  then show ?thesis by auto
qed

lemma groupby_sum_row:
  assumes r: "r \<in> set (rows (groupby_sum ks v d))" and v: "v \<notin> set ks" and ks: "distinct ks"
  shows "get r v =
     Num (series_sum (map (\<lambda>x. get x v) (filter (\<lambda>x. map (get x) ks = map (get r) ks) (rows d))))"
proof -
  from groupby_sum_value [OF r v] obtain k where k: "k \<in> set (group_keys ks (rows d))"
    and row: "r = zip ks k @ [(v, Num (series_sum (map (\<lambda>x. get x v) (group_rows ks (rows d) k))))]"
    and val: "get r v = Num (series_sum (map (\<lambda>x. get x v) (group_rows ks (rows d) k)))"
    by blast
  have "map (get r) ks = k"
    unfolding row by (rule get_zip_keys [OF ks group_keys_length [OF k] v])
  with val show ?thesis by (simp add: group_rows_def)
qed

lemma leaders_value:
  assumes ok: "argsort_ok a"
    and res: "leaders a d ks stat disp = Inr (Some lb)"
    and stat: "stat \<notin> set ks" and ks: "distinct ks"
    and r: "r \<in> set (lb_rows lb)"
  shows "get r stat =
     Num (series_sum (map (\<lambda>x. get x stat) (filter (\<lambda>x. map (get x) ks = map (get r) ks) (rows d))))"
proof -
  have "lb_rows lb = take 20 (rows (sort_values a stat (groupby_sum ks stat d)))"
    by (simp add: leaders_Some(1) [OF res] lb_rows_ranked head_def)
  with r have "r \<in> set (rows (sort_values a stat (groupby_sum ks stat d)))"
    by (auto dest: in_set_takeD)
  then have "r \<in> set (rows (groupby_sum ks stat d))"
    by (simp add: sort_values_set [OF ok])
  then show ?thesis by (rule groupby_sum_row [OF _ stat ks])
qed

text \<open>
  On the offence branch the value shown for a player and position is the sum of the
  statistic over the weekly rows of that player and position whose week lies in the
  range of the slider, both ends included.
\<close>

lemma offense_week_range_sum:
  assumes "argsort_ok argsort"
    and "tab1 argsort weekly_df ngs_data_raw defensive_df selected_year Offense ngs_type
           sub_category_key (lo, hi) = Inr (Some (lb, stat_column))"
    and "r \<in> set (lb_rows lb)"
  shows "get r stat_column =
           Num (sum_list (map (\<lambda>x. num_of (get x stat_column))
             (filter (\<lambda>x. get x pdn = get r pdn \<and> get x ''position'' = get r ''position''
                           \<and> (\<exists>w. get x ''week'' = Num w \<and> of_int lo \<le> w \<and> w \<le> of_int hi))
                     (rows weekly_df))))"
  using tab1_Some_cases [OF assms(2)]
proof (elim disjE conjE)
  assume "Offense = Defense"
  then show ?thesis by simp
next
  assume s: "stat_column \<in> set (map snd OFFENSE_STATS)"
    and l: "leaders argsort (loc (in_weeks (lo, hi)) weekly_df) [pdn, ''position''] stat_column
           [pdn, ''position'', stat_column] = Inr (Some lb)"
  have w: "in_weeks (lo, hi) x \<longleftrightarrow> (\<exists>w. get x ''week'' = Num w \<and> of_int lo \<le> w \<and> w \<le> of_int hi)" for x
    by (auto simp: in_weeks_def split: cell.splits)
  from leaders_value [OF assms(1) l offense_stat_not_key [OF s] _ assms(3)]
  show ?thesis
    by (simp add: loc_def series_sum_def comp_def w conj_commute conj_left_commute cong: conj_cong)
next
  assume "Offense = Next_Gen_Stats"
  then show ?thesis by simp
qed

lemma tab1_ngs_weeks:
  "tab1 a w ngs d y Next_Gen_Stats nt key wr = tab1 a w ngs d y Next_Gen_Stats nt key wr'"
  by (simp add: tab1_def)

lemma tab1_defense:
  "tab1 a w ngs d y Defense nt key wr = tab1 a w' ngs' d y' Defense nt' key wr'"
  by (simp add: tab1_def)

lemma top_performers_Shown:
  assumes "top_performers a st w ngs pbp ros y cat nt key wr = Inr (Shown x)"
  shows "\<exists>d weekly. load_and_aggregate_pbp_data pbp ros = Inr d
     \<and> season_filter st w = Inr weekly \<and> \<not> empty weekly
     \<and> tab1 a weekly ngs d y cat nt key wr = Inr x"
  using assms
  by (auto simp: top_performers_def Let_def split: sum.splits if_splits)

subsection \<open>Player search\<close>

lemma column_sum_player:
  "column_sum (loc (\<lambda>r. get r pdn = Str player) d) col = season_total d player col"
  by (simp add: column_sum_def loc_def series_sum_def season_total_def comp_def)

lemma in_weeks_iff:
  "in_weeks wr r \<longleftrightarrow> (\<exists>w. get r ''week'' = Num w \<and> of_int (fst wr) \<le> w \<and> w \<le> of_int (snd wr))"
  by (auto simp: in_weeks_def split: cell.splits)

lemma column_sum_range:
  "column_sum (loc (in_weeks wr) (loc (\<lambda>r. get r pdn = Str player) d)) col
     = range_total d player wr col"
  by (simp add: column_sum_def loc_def series_sum_def range_total_def comp_def in_weeks_iff
        conj_commute cong: conj_cong)

lemma kept_columns:
  "map fst (map (\<lambda>(col, v). (col, g v)) (filter (\<lambda>(col, v). P v) (map (\<lambda>col. (col, f col)) cs)))
     = filter (\<lambda>col. P (f col)) cs"
  by (induction cs) auto

lemma columns_loc: "columns (loc p d) = columns d"
  by (simp add: loc_def)

lemma tab2_Some:
  assumes "tab2 weekly_df player wr = Inr (Some s)"
  shows "cols_with_data s =
           filter (\<lambda>col. col \<in> set (columns weekly_df) \<and> 0 < season_total weekly_df player col)
                  (map snd OFFENSE_STATS)"
    and "agg_stats s =
           (if cols_with_data s = [] then None
            else Some (map (\<lambda>col. (col, py_int (season_total weekly_df player col))) (cols_with_data s)))"
    and "range_agg_stats s =
           (if cols_with_data s = [] then None
            else Some (map (\<lambda>(col, v). (col, py_int v))
                   (filter (\<lambda>(col, v). 0 < v)
                      (map (\<lambda>col. (col, range_total weekly_df player wr col)) (cols_with_data s)))))"
  using assms
  by (auto simp: tab2_def Let_def column_sum_player column_sum_range columns_loc
      split: if_splits sum.splits)

section \<open>The frames of the statistics\<close>

lemma group_keys_single:
  assumes "k \<in> set (group_keys [p] rs)"
  shows "\<exists>c. k = [c] \<and> c \<noteq> NaN"
proof -
  from assms have "k \<in> set (map (\<lambda>r. map (get r) [p]) rs)" and "NaN \<notin> set k"
    by (simp_all add: group_keys_def)
  then obtain r where "k = [get r p]" by auto
  with \<open>NaN \<notin> set k\<close> show ?thesis by auto
qed

lemma distinct_group_keys: "distinct (group_keys ks rs)"
  by (simp add: group_keys_def)

lemma distinct_map_hd_singletons:
  assumes "distinct ks" and "\<forall>k\<in>set ks. \<exists>c. k = [c]"
  shows "distinct (map hd ks)"
proof -
  have "inj_on hd (set ks)"
  proof (rule inj_onI)
    fix x y assume "x \<in> set ks" "y \<in> set ks" "hd x = hd y"
    moreover from this assms(2) obtain c d where "x = [c]" "y = [d]" by blast
    ultimately show "x = y" by simp
  qed
  with assms(1) show ?thesis by (simp add: distinct_map)
qed

lemma rename_col_player: "rename_col [(f, s), (p, n)] p = n"
  by (simp add: rename_col_def)

lemma rename_col_flag: "f \<noteq> p \<Longrightarrow> rename_col [(f, s), (p, n)] f = s"
  by (simp add: rename_col_def)

lemma rename_col_other: "c \<noteq> p \<Longrightarrow> c \<noteq> f \<Longrightarrow> rename_col [(f, s), (p, n)] c = c"
  by (simp add: rename_col_def)

lemma series_sum_ones:
  assumes "\<forall>x\<in>set xs. x = Num 1"
  shows "series_sum xs = of_nat (length xs)"
  using assms by (induction xs) (auto simp: series_sum_def)

lemma rename_groupby_size:
  assumes "s \<noteq> p" and "s \<noteq> f"
  shows "rename [(f, s), (p, n)] (groupby_size [p] s d) =
     \<lparr>columns = [n, s],
      rows = map (\<lambda>k. [(n, hd k), (s, Num (of_nat (length (group_rows [p] (rows d) k))))])
                 (group_keys [p] (rows d))\<rparr>"
proof -
  have row: "map (\<lambda>(c, v). (rename_col [(f, s), (p, n)] c, v)) (zip [p] k @ [(s, x)])
      = [(n, hd k), (s, x)]" if "k \<in> set (group_keys [p] (rows d))" for k x
  proof -
    from group_keys_single [OF that] obtain c where "k = [c]" by blast
    then show ?thesis
      using assms by (simp add: rename_col_player rename_col_other)
  qed
  have "columns (rename [(f, s), (p, n)] (groupby_size [p] s d)) = [n, s]"
    using assms by (simp add: rename_def groupby_size_def rename_col_player rename_col_other)
  moreover have "rows (rename [(f, s), (p, n)] (groupby_size [p] s d)) =
      map (\<lambda>k. map (\<lambda>(c, v). (rename_col [(f, s), (p, n)] c, v))
                 (zip [p] k @ [(s, Num (of_nat (length (group_rows [p] (rows d) k))))]))
          (group_keys [p] (rows d))"
    by (simp only: rename_def groupby_size_def df.select_convs map_map o_def)
  then have "rows (rename [(f, s), (p, n)] (groupby_size [p] s d)) =
      map (\<lambda>k. [(n, hd k), (s, Num (of_nat (length (group_rows [p] (rows d) k))))])
          (group_keys [p] (rows d))"
    by (simp only: row cong: map_cong)
  ultimately show ?thesis by simp
qed

lemma rename_groupby_sum:
  assumes "s \<noteq> p" and "f \<noteq> p"
    and ones: "\<forall>r\<in>set (rows d). get r f = Num 1"
  shows "rename [(f, s), (p, n)] (groupby_sum [p] f d) =
     \<lparr>columns = [n, s],
      rows = map (\<lambda>k. [(n, hd k), (s, Num (of_nat (length (group_rows [p] (rows d) k))))])
                 (group_keys [p] (rows d))\<rparr>"
proof -
  have sum: "series_sum (map (\<lambda>r. get r f) (group_rows [p] (rows d) k))
      = of_nat (length (group_rows [p] (rows d) k))" for k
    using ones by (subst series_sum_ones) (auto simp: group_rows_def)
  have row: "map (\<lambda>(c, v). (rename_col [(f, s), (p, n)] c, v)) (zip [p] k @ [(f, x)])
      = [(n, hd k), (s, x)]" if "k \<in> set (group_keys [p] (rows d))" for k x
  proof -
    from group_keys_single [OF that] obtain c where "k = [c]" by blast
    then show ?thesis
      using assms(1,2) by (simp add: rename_col_player rename_col_flag)
  qed
  have "columns (rename [(f, s), (p, n)] (groupby_sum [p] f d)) = [n, s]"
    using assms(1,2) by (simp add: rename_def groupby_sum_def rename_col_player rename_col_flag)
  moreover have "rows (rename [(f, s), (p, n)] (groupby_sum [p] f d)) =
      map (\<lambda>k. map (\<lambda>(c, v). (rename_col [(f, s), (p, n)] c, v))
                 (zip [p] k @ [(f, Num (series_sum (map (\<lambda>r. get r f) (group_rows [p] (rows d) k))))]))
          (group_keys [p] (rows d))"
    by (simp only: rename_def groupby_sum_def df.select_convs map_map o_def)
  then have "rows (rename [(f, s), (p, n)] (groupby_sum [p] f d)) =
      map (\<lambda>k. [(n, hd k), (s, Num (of_nat (length (group_rows [p] (rows d) k))))])
          (group_keys [p] (rows d))"
    by (simp only: row sum cong: map_cong)
  ultimately show ?thesis by simp
qed

lemma get_first: "get ((c, x) # r) c = x"
  by (simp add: get_def)

lemma kind_table_counts:
  "kind_table s
     \<lparr>columns = [pdn, s],
      rows = map (\<lambda>k. [(pdn, hd k), (s, Num (of_nat (length (group_rows [p] rs k))))])
                 (group_keys [p] rs)\<rparr>"
proof -
  let ?G = "group_keys [p] rs"
  have "distinct (map hd ?G)"
    by (rule distinct_map_hd_singletons [OF distinct_group_keys]) (auto dest: group_keys_single)
  moreover have "\<exists>c n. c \<noteq> NaN
      \<and> [(pdn, hd k), (s, Num (of_nat (length (group_rows [p] rs k))))] = [(pdn, c), (s, Num (of_nat n))]"
    if "k \<in> set ?G" for k
    using group_keys_single [OF that] by auto
  ultimately show ?thesis
    by (simp add: kind_table_def keys_def comp_def get_first)
qed

lemma kind_table_size:
  assumes "s \<noteq> p" and "s \<noteq> f"
  shows "kind_table s (rename [(f, s), (p, pdn)] (groupby_size [p] s d))"
  by (simp only: rename_groupby_size [OF assms] kind_table_counts)

lemma kind_table_sum:
  assumes "s \<noteq> p" and "f \<noteq> p" and "\<forall>r\<in>set (rows d). get r f = Num 1"
  shows "kind_table s (rename [(f, s), (p, pdn)] (groupby_sum [p] f d))"
  by (simp only: rename_groupby_sum [OF assms] kind_table_counts)

lemma stat_df_kind_table:
  assumes "stat_df pbp s f p = Inr t" and "kind_ok (s, f, p)"
  shows "kind_table s t"
proof (cases "s \<in> set [''passes_defended'', ''fumbles_recovered'']")
  case True
  with assms(1) have t: "t = rename [(f, s), (p, pdn)] (groupby_size [p] s (dropna p pbp))"
    by (simp add: stat_df_def Let_def)
  from assms(2) have sp: "s \<noteq> p" and sf: "s \<noteq> f" by (simp_all add: kind_ok_def)
  show ?thesis unfolding t by (rule kind_table_size [OF sp sf])
next
  case False
  with assms(1) have t: "t = rename [(f, s), (p, pdn)]
       (groupby_sum [p] f (loc (\<lambda>r. get r f = Num 1) (dropna p pbp)))"
    by (simp add: stat_df_def Let_def split: if_splits)
  from assms(2) False have sp: "s \<noteq> p" and fp: "f \<noteq> p" by (simp_all add: kind_ok_def)
  have ones: "\<forall>r\<in>set (rows (loc (\<lambda>r. get r f = Num 1) (dropna p pbp))). get r f = Num 1"
    by (simp add: loc_def)
  show ?thesis unfolding t by (rule kind_table_sum [OF sp fp ones])
qed

lemma def_stats_dict_ok: "\<forall>e\<in>set def_stats_dict. kind_ok e"
  by (simp add: def_stats_dict_def kind_ok_def)

lemma aggregated_stats_tables:
  assumes "aggregated_stats pbp dict = Inr ts" and "\<forall>e\<in>set dict. kind_ok e"
  shows "list_all2 (\<lambda>e t. kind_table (fst e) t)
           (filter (\<lambda>e. snd (snd e) \<in> set (columns pbp)) dict) ts"
  using assms
proof (induction dict arbitrary: ts)
  case Nil
  then show ?case by simp
next
  case (Cons e dict)
  obtain s f p where e: "e = (s, f, p)" by (cases e)
  show ?case
  proof (cases "p \<in> set (columns pbp)")
    case True
    with Cons.prems(1) e obtain t ts' where t: "stat_df pbp s f p = Inr t"
      and ts': "aggregated_stats pbp dict = Inr ts'" and ts: "ts = t # ts'"
      by (auto split: sum.splits)
    have "kind_table s t" using stat_df_kind_table [OF t] Cons.prems(2) e by simp
    moreover have "list_all2 (\<lambda>e t. kind_table (fst e) t)
           (filter (\<lambda>e. snd (snd e) \<in> set (columns pbp)) dict) ts'"
      using Cons.IH [OF ts'] Cons.prems(2) by simp
    ultimately show ?thesis using True e ts by simp
  next
    case False
    with Cons.prems(1) e have "aggregated_stats pbp dict = Inr ts" by simp
    from Cons.IH [OF this] Cons.prems(2) False e show ?thesis by simp
  qed
qed

section \<open>The outer join of the statistics\<close>

lemma filter_key_distinct:
  assumes "distinct (map f xs)"
  shows "filter (\<lambda>x. f x = k) xs = (case find (\<lambda>x. f x = k) xs of None \<Rightarrow> [] | Some x \<Rightarrow> [x])"
  using assms
proof (induction xs)
  case Nil
  then show ?case by simp
next
  case (Cons x xs)
  show ?case
  proof (cases "f x = k")
    case True
    from Cons.prems have "f x \<notin> f ` set xs" by simp
    then have "\<forall>y\<in>set xs. f y \<noteq> f x" by (metis image_eqI)
    with True have "filter (\<lambda>y. f y = k) xs = []"
      by (simp add: filter_empty_conv)
    with True show ?thesis by simp
  next
    case False
    with Cons show ?thesis by simp
  qed
qed

lemma find_None_key: "find (\<lambda>x. f x = k) xs = None \<longleftrightarrow> k \<notin> set (map f xs)"
  by (auto simp: find_None_iff)

lemma find_Some_key: "find (\<lambda>x. f x = k) xs = Some x \<Longrightarrow> x \<in> set xs \<and> f x = k"
  by (auto simp: find_Some_iff)

lemma find_distinct_key:
  assumes "distinct (map f xs)" and "x \<in> set xs"
  shows "find (\<lambda>r. f r = f x) xs = Some x"
  using assms by (induction xs) (auto simp: rev_image_eqI)

lemma join_group_find:
  assumes "distinct (map f xs)" and "distinct (map g ys)"
    and "k \<in> set (map f xs) \<union> set (map g ys)"
  shows "join_group on lc rc k (filter (\<lambda>x. f x = k) xs) (filter (\<lambda>y. g y = k) ys)
    = [join_row on lc rc k (find (\<lambda>x. f x = k) xs) (find (\<lambda>y. g y = k) ys)]"
proof -
  have "find (\<lambda>x. f x = k) xs \<noteq> None \<or> find (\<lambda>y. g y = k) ys \<noteq> None"
    using assms(3) by (simp only: find_None_key Un_iff) blast
  then show ?thesis
    unfolding filter_key_distinct [OF assms(1)] filter_key_distinct [OF assms(2)]
    by (auto simp: join_group_def split: option.splits)
qed

lemma concat_map_single:
  assumes "\<forall>x\<in>set xs. f x = [g x]"
  shows "concat (map f xs) = map g xs"
  using assms by (induction xs) auto

lemma merge_outer_rows:
  assumes "distinct (keys l)" and "distinct (keys r)"
  shows "rows (merge_outer pdn l r) =
     map (\<lambda>k. join_row pdn (columns l) (columns r) k
                 (find (\<lambda>x. get x pdn = k) (rows l)) (find (\<lambda>y. get y pdn = k) (rows r)))
         (sort_key cell_key (remdups (keys l @ keys r)))"
proof -
  have "join_group pdn (columns l) (columns r) k
          (filter (\<lambda>x. get x pdn = k) (rows l)) (filter (\<lambda>y. get y pdn = k) (rows r))
      = [join_row pdn (columns l) (columns r) k
          (find (\<lambda>x. get x pdn = k) (rows l)) (find (\<lambda>y. get y pdn = k) (rows r))]"
    if "k \<in> set (sort_key cell_key (remdups (keys l @ keys r)))" for k
  proof (rule join_group_find)
    show "distinct (map (\<lambda>x. get x pdn) (rows l))" using assms(1) by (simp add: keys_def)
    show "distinct (map (\<lambda>x. get x pdn) (rows r))" using assms(2) by (simp add: keys_def)
    show "k \<in> set (map (\<lambda>x. get x pdn) (rows l)) \<union> set (map (\<lambda>x. get x pdn) (rows r))"
      using that by (simp add: keys_def)
  qed
  then have "concat (map (\<lambda>k. join_group pdn (columns l) (columns r) k
          (filter (\<lambda>x. get x pdn = k) (rows l)) (filter (\<lambda>y. get y pdn = k) (rows r)))
        (sort_key cell_key (remdups (keys l @ keys r))))
     = map (\<lambda>k. join_row pdn (columns l) (columns r) k
                 (find (\<lambda>x. get x pdn = k) (rows l)) (find (\<lambda>y. get y pdn = k) (rows r)))
         (sort_key cell_key (remdups (keys l @ keys r)))"
    by (intro concat_map_single) blast
  then show ?thesis
    by (simp add: merge_outer_def keys_def)
qed

lemma get_join_row:
  "get (join_row on lc rc k x y) c =
     (if c \<in> set lc \<union> set rc
      then if c = on then k
           else if c \<in> set lc then (case x of Some r \<Rightarrow> get r c | None \<Rightarrow> NaN)
           else (case y of Some r \<Rightarrow> get r c | None \<Rightarrow> NaN)
      else NaN)"
  by (auto simp: join_row_def get_mk_row)

lemma fst_join_row: "map fst (join_row on lc rc k x y) = lc @ filter (\<lambda>c. c \<notin> set lc) rc"
  by (simp add: join_row_def mk_row_def comp_def)

lemma cell_at_absent: "k \<notin> set (keys t) \<Longrightarrow> cell_at t k c = NaN"
  by (simp add: cell_at_def keys_def find_None_key [THEN iffD2])

lemma merged_single:
  assumes "kind_table s t"
  shows "merged [(s, t)] t"
proof -
  from assms have cols: "columns t = [pdn, s]" and d: "distinct (keys t)"
    and rows: "\<forall>r\<in>set (rows t). \<exists>c n. c \<noteq> NaN \<and> r = [(pdn, c), (s, Num (of_nat n))]"
    by (simp_all add: kind_table_def)
  have "map fst x = columns t" if "x \<in> set (rows t)" for x
    using rows that cols by fastforce
  moreover have "get x s = cell_at t (get x pdn) s" if "x \<in> set (rows t)" for x
  proof -
    have "find (\<lambda>r. get r pdn = get x pdn) (rows t) = Some x"
      using d that by (intro find_distinct_key) (simp add: keys_def)
    then show ?thesis by (simp add: cell_at_def)
  qed
  ultimately show ?thesis
    using cols d by (simp add: merged_def)
qed

lemma merged_step:
  assumes m: "merged sts m" and t: "kind_table s t"
    and fresh: "s \<notin> set (pdn # map fst sts)" and nokey: "pdn \<notin> set (map fst sts)"
  shows "merged (sts @ [(s, t)]) (merge_outer pdn m t)"
proof -
  let ?K = "sort_key cell_key (remdups (keys m @ keys t))"
  let ?row = "\<lambda>k. join_row pdn (columns m) (columns t) k
                 (find (\<lambda>x. get x pdn = k) (rows m)) (find (\<lambda>y. get y pdn = k) (rows t))"
  from m have cm: "columns m = pdn # map fst sts" and dm: "distinct (keys m)"
    and km: "set (keys m) = (\<Union>st\<in>set sts. set (keys (snd st)))"
    and vm: "\<forall>x\<in>set (rows m). \<forall>st\<in>set sts. get x (fst st) = cell_at (snd st) (get x pdn) (fst st)"
    by (simp_all add: merged_def)
  from t have ct: "columns t = [pdn, s]" and dt: "distinct (keys t)"
    by (simp_all add: kind_table_def)
  have rows: "rows (merge_outer pdn m t) = map ?row ?K"
    by (rule merge_outer_rows [OF dm dt])
  have cols: "columns (merge_outer pdn m t) = pdn # map fst (sts @ [(s, t)])"
    using fresh by (simp add: merge_outer_def cm ct)
  have key: "get (?row k) pdn = k" for k
    by (simp add: get_join_row cm)
  have keys: "keys (merge_outer pdn m t) = ?K"
    by (simp add: keys_def rows comp_def key)
  have old: "get (?row k) (fst st) = cell_at (snd st) k (fst st)" if st: "st \<in> set sts" for k st
  proof -
    have neq: "fst st \<noteq> pdn" using st nokey by (metis image_eqI set_map)
    have inl: "fst st \<in> set (columns m)" using st cm by simp
    show ?thesis
    proof (cases "find (\<lambda>x. get x pdn = k) (rows m)")
      case None
      then have "k \<notin> set (keys m)" by (simp add: find_None_key keys_def)
      with km st have "k \<notin> set (keys (snd st))" by blast
      then have "cell_at (snd st) k (fst st) = NaN" by (rule cell_at_absent)
      with None neq inl show ?thesis by (simp add: get_join_row)
    next
      case (Some x)
      then have "x \<in> set (rows m)" and "get x pdn = k"
        by (auto dest: find_Some_key)
      with vm st have "get x (fst st) = cell_at (snd st) k (fst st)" by blast
      with Some neq inl show ?thesis by (simp add: get_join_row)
    qed
  qed
  have new: "get (?row k) s = cell_at t k s" for k
    using fresh by (simp add: get_join_row cm ct cell_at_def)
  have "map fst (?row k) = columns (merge_outer pdn m t)" for k
    by (simp add: fst_join_row merge_outer_def)
  moreover have "distinct ?K" by simp
  moreover have "set ?K = (\<Union>st\<in>set (sts @ [(s, t)]). set (keys (snd st)))"
    using km by auto
  moreover have "\<forall>x\<in>set (map ?row ?K). \<forall>st\<in>set (sts @ [(s, t)]).
      get x (fst st) = cell_at (snd st) (get x pdn) (fst st)"
    using old new by (auto simp: key)
  ultimately show ?thesis
    unfolding merged_def keys rows using cols by simp
qed

section \<open>From the join to the returned frame\<close>

lemma merged_foldl:
  assumes "merged sts m" and "\<forall>st\<in>set rest. kind_table (fst st) (snd st)"
    and "distinct (pdn # map fst (sts @ rest))"
  shows "merged (sts @ rest) (foldl (merge_outer pdn) m (map snd rest))"
  using assms
proof (induction rest arbitrary: sts m)
  case Nil
  then show ?case by simp
next
  case (Cons st rest)
  obtain s t where st: "st = (s, t)" by (cases st)
  have "merged (sts @ [(s, t)]) (merge_outer pdn m t)"
  proof (rule merged_step [OF Cons.prems(1)])
    show "kind_table s t" using Cons.prems(2) st by simp
    show "s \<notin> set (pdn # map fst sts)" using Cons.prems(3) st by auto
    show "pdn \<notin> set (map fst sts)" using Cons.prems(3) by auto
  qed
  moreover have "\<forall>st\<in>set rest. kind_table (fst st) (snd st)" using Cons.prems(2) by simp
  moreover have "distinct (pdn # map fst ((sts @ [(s, t)]) @ rest))"
    using Cons.prems(3) st by simp
  ultimately have "merged ((sts @ [(s, t)]) @ rest)
      (foldl (merge_outer pdn) (merge_outer pdn m t) (map snd rest))"
    by (rule Cons.IH)
  then show ?case by (simp add: st)
qed

lemma merged_reduce:
  assumes "sts \<noteq> []" and "\<forall>st\<in>set sts. kind_table (fst st) (snd st)"
    and "distinct (pdn # map fst sts)"
  shows "merged sts (reduce (merge_outer pdn) (map snd sts))"
proof -
  from assms(1) obtain st rest where sts: "sts = st # rest" by (cases sts) auto
  have "merged [(fst st, snd st)] (snd st)"
    using assms(2) sts by (intro merged_single) simp
  then have "merged ([(fst st, snd st)] @ rest) (foldl (merge_outer pdn) (snd st) (map snd rest))"
    using assms(2,3) sts by (intro merged_foldl) simp_all
  then show ?thesis by (simp add: reduce_def sts)
qed

lemma list_all2_zip_fst:
  "list_all2 (\<lambda>e t. Q (fst e) t) es ts \<Longrightarrow> \<forall>st\<in>set (zip (map fst es) ts). Q (fst st) (snd st)"
  by (induction rule: list_all2_induct) auto

lemma aggregated_stats_pairs:
  assumes "aggregated_stats pbp def_stats_dict = Inr ts"
  shows "\<exists>sts. map snd sts = ts \<and> (\<forall>st\<in>set sts. kind_table (fst st) (snd st))
      \<and> map fst sts = map fst (filter (\<lambda>e. snd (snd e) \<in> set (columns pbp)) def_stats_dict)"
proof -
  let ?es = "filter (\<lambda>e. snd (snd e) \<in> set (columns pbp)) def_stats_dict"
  have all: "list_all2 (\<lambda>e t. kind_table (fst e) t) ?es ts"
    by (rule aggregated_stats_tables [OF assms def_stats_dict_ok])
  then have len: "length ?es = length ts" by (rule list_all2_lengthD)
  let ?sts = "zip (map fst ?es) ts"
  have "map snd ?sts = ts" using len by simp
  moreover have "map fst ?sts = map fst ?es" using len by simp
  moreover have "\<forall>st\<in>set ?sts. kind_table (fst st) (snd st)"
    using all by (rule list_all2_zip_fst)
  ultimately show ?thesis by blast
qed

lemma distinct_stat_names: "distinct (pdn # ''position'' # map fst def_stats_dict)"
  by (simp add: def_stats_dict_def)

lemma distinct_map_filter_fst:
  "distinct (map fst xs) \<Longrightarrow> distinct (map fst (filter P xs))"
  by (simp add: distinct_map_filter)


lemma get_map_cells:
  "get (map (\<lambda>(c, x). (c, g c x)) r) c = (case map_of r c of None \<Rightarrow> NaN | Some x \<Rightarrow> g c x)"
  by (induction r) (auto simp: get_def)

lemma map_of_aligned:
  assumes "map fst r = cs" and "c \<in> set cs"
  shows "map_of r c = Some (get r c)"
proof -
  from assms have "c \<in> fst ` set r" by (metis set_map)
  then obtain v where "map_of r c = Some v"
    by (metis map_of_eq_None_iff not_Some_eq)
  then show ?thesis by (simp add: get_def)
qed

lemma get_fill:
  assumes "map fst r = cs" and "c \<in> set cs"
  shows "get (map (\<lambda>(c, x). (c, if x = NaN then v else x)) r) c
     = (if get r c = NaN then v else get r c)"
  by (simp add: get_map_cells map_of_aligned [OF assms])

lemma get_cast:
  "get (map (\<lambda>(c, x). (c, if c \<in> S then cell_astype_int x else x)) r) c
     = (if c \<in> S then cell_astype_int (get r c) else get r c)"
proof -
  have "get (map (\<lambda>(c, x). (c, if c \<in> S then cell_astype_int x else x)) r) c
      = (case map_of r c of None \<Rightarrow> NaN | Some x \<Rightarrow> if c \<in> S then cell_astype_int x else x)"
    by (rule get_map_cells)
  then show ?thesis
    by (cases "map_of r c") (simp_all add: get_def)
qed

lemma fst_map_cells: "map fst (map (\<lambda>(c, x). (c, g c x)) r) = map fst r"
  by (induction r) auto

lemma first_rows_distinct:
  "distinct (map (\<lambda>r. get r c) (first_rows c seen rs))
   \<and> set (map (\<lambda>r. get r c) (first_rows c seen rs)) \<inter> set seen = {}"
proof (induction rs arbitrary: seen)
  case Nil
  then show ?case by simp
next
  case (Cons r rs)
  show ?case
  proof (cases "get r c \<in> set seen")
    case True
    with Cons [of seen] show ?thesis by simp
  next
    case False
    from Cons [of "get r c # seen"]
    have d: "distinct (map (\<lambda>r. get r c) (first_rows c (get r c # seen) rs))"
      and n: "get r c \<notin> set (map (\<lambda>r. get r c) (first_rows c (get r c # seen) rs))"
      and i: "set (map (\<lambda>r. get r c) (first_rows c (get r c # seen) rs)) \<inter> set seen = {}"
      by auto
    from False d n i show ?thesis by simp
  qed
qed

lemma drop_duplicates_distinct: "distinct (map (\<lambda>r. get r c) (rows (drop_duplicates c d)))"
  using first_rows_distinct [of c "[]" "rows d"] by (simp add: drop_duplicates_def)

lemma merge_left_rows:
  assumes "distinct (keys r)"
  shows "rows (merge_left pdn l r) =
     map (\<lambda>x. join_row pdn (columns l) (columns r) (get x pdn) (Some x)
                 (find (\<lambda>y. get y pdn = get x pdn) (rows r)))
         (rows l)"
proof -
  have d: "distinct (map (\<lambda>y. get y pdn) (rows r))" using assms by (simp add: keys_def)
  have "join_group pdn (columns l) (columns r) k [x] (filter (\<lambda>y. get y pdn = k) (rows r))
      = [join_row pdn (columns l) (columns r) k (Some x) (find (\<lambda>y. get y pdn = k) (rows r))]"
    for k x
    unfolding filter_key_distinct [OF d]
    by (simp add: join_group_def split: option.splits)
  then show ?thesis
    by (simp add: merge_left_def concat_map_single)
qed

lemma py_int_of_nat: "py_int (of_nat n) = int n"
  by (simp add: py_int_def)

lemma cast_count: "cell_astype_int (Num (of_nat n)) = Num (of_nat n)"
  by (simp add: py_int_of_nat)

lemma cell_at_kind_table:
  assumes "kind_table s t" and "s \<noteq> pdn" and "k \<in> set (keys t)"
  shows "\<exists>n. cell_at t k s = Num (of_nat n)"
proof -
  have "find (\<lambda>r. get r pdn = k) (rows t) \<noteq> None"
    using assms(3) by (simp add: find_None_key keys_def)
  then obtain r where f: "find (\<lambda>r. get r pdn = k) (rows t) = Some r"
    by blast
  then have "r \<in> set (rows t)" by (auto dest: find_Some_key)
  with assms(1) obtain c n where "r = [(pdn, c), (s, Num (of_nat n))]"
    unfolding kind_table_def by blast
  with assms(2) have "get r s = Num (of_nat n)" by (simp add: get_def)
  with f show ?thesis by (auto simp: cell_at_def)
qed

lemma kind_table_keys:
  assumes "kind_table s t"
  shows "NaN \<notin> set (keys t)"
proof
  assume "NaN \<in> set (keys t)"
  then obtain r where r: "r \<in> set (rows t)" and k: "get r pdn = NaN"
    by (auto simp: keys_def)
  from assms r obtain c x where "c \<noteq> NaN" and "r = (pdn, c) # x"
    by (auto simp: kind_table_def)
  with k show False by (simp add: get_first)
qed

lemma roster_positions:
  assumes "select_columns [''player_name'', ''position''] rosters = Inr named"
  shows "columns (drop_duplicates pdn (rename [(''player_name'', pdn)] named)) = [pdn, ''position'']"
    and "distinct (keys (drop_duplicates pdn (rename [(''player_name'', pdn)] named)))"
proof -
  have "columns named = [''player_name'', ''position'']"
    by (rule select_columns_Inr(1) [OF assms])
  then show "columns (drop_duplicates pdn (rename [(''player_name'', pdn)] named)) = [pdn, ''position'']"
    by (simp add: drop_duplicates_def rename_def rename_col_def)
  show "distinct (keys (drop_duplicates pdn (rename [(''player_name'', pdn)] named)))"
    unfolding keys_def by (rule drop_duplicates_distinct)
qed

lemma finish_defense_Inr:
  assumes "finish_defense ts rosters = Inr d"
  shows "\<exists>P. columns P = [pdn, ''position''] \<and> distinct (keys P)
     \<and> d = merge_left pdn
           (astype_int (filter (\<lambda>stat. stat \<in> set (columns (reduce (merge_outer pdn) ts)))
                               (map fst def_stats_dict))
              (fillna (Num 0) (reduce (merge_outer pdn) ts))) P"
proof -
  from assms obtain named where sel: "select_columns [''player_name'', ''position''] rosters = Inr named"
    and d: "d = merge_left pdn
           (astype_int (filter (\<lambda>stat. stat \<in> set (columns (fillna (Num 0) (reduce (merge_outer pdn) ts))))
                               (map fst def_stats_dict))
              (fillna (Num 0) (reduce (merge_outer pdn) ts)))
           (drop_duplicates pdn (rename [(''player_name'', pdn)] named))"
    by (auto simp: finish_defense_def Let_def split: sum.splits)
  have "columns (fillna (Num 0) (reduce (merge_outer pdn) ts)) = columns (reduce (merge_outer pdn) ts)"
    by (simp add: fillna_def)
  with d roster_positions [OF sel] show ?thesis by metis
qed

lemma key_in_keys: "x \<in> set (rows d) \<Longrightarrow> get x pdn \<in> set (keys d)"
  by (simp add: keys_def)

lemma position_not_stat: "''position'' \<notin> set (pdn # map fst def_stats_dict)"
  using distinct_stat_names by simp

lemma pdn_not_stat: "pdn \<notin> set (map fst def_stats_dict)"
  using distinct_stat_names by simp

lemma finish_defense_cells:
  assumes m: "merged sts (reduce (merge_outer pdn) ts)"
    and kt: "\<forall>st\<in>set sts. kind_table (fst st) (snd st)"
    and names: "set (map fst sts) \<subseteq> set (map fst def_stats_dict)"
    and res: "finish_defense ts rosters = Inr d"
  shows "columns d = pdn # map fst sts @ [''position'']"
    and "keys d = keys (reduce (merge_outer pdn) ts)"
    and "\<forall>x\<in>set (rows d). \<forall>st\<in>set sts.
           get x (fst st) = (if get x pdn \<in> set (keys (snd st))
                             then cell_at (snd st) (get x pdn) (fst st) else Num 0)"
proof -
  define D1 where "D1 = reduce (merge_outer pdn) ts"
  define conv where "conv = filter (\<lambda>stat. stat \<in> set (columns D1)) (map fst def_stats_dict)"
  define fill :: "row \<Rightarrow> row" where "fill = map (\<lambda>(c, x). (c, if x = NaN then Num 0 else x))"
  define cast :: "row \<Rightarrow> row" where "cast = map (\<lambda>(c, x). (c, if c \<in> set conv then cell_astype_int x else x))"
  define D3 where "D3 = astype_int conv (fillna (Num 0) D1)"
  from finish_defense_Inr [OF res] obtain P where cP: "columns P = [pdn, ''position'']"
    and dP: "distinct (keys P)" and d: "d = merge_left pdn D3 P"
    unfolding D1_def conv_def D3_def by blast
  from m have c1: "columns D1 = pdn # map fst sts"
    and al: "\<forall>x\<in>set (rows D1). map fst x = columns D1"
    and k1: "set (keys D1) = (\<Union>st\<in>set sts. set (keys (snd st)))"
    and v1: "\<forall>x\<in>set (rows D1). \<forall>st\<in>set sts. get x (fst st) = cell_at (snd st) (get x pdn) (fst st)"
    by (simp_all add: merged_def D1_def)
  have c3: "columns D3 = columns D1"
    by (simp add: D3_def astype_int_def fillna_def)
  have r3: "rows D3 = map (\<lambda>x. cast (fill x)) (rows D1)"
    by (simp add: D3_def astype_int_def fillna_def cast_def fill_def)
  have pos: "''position'' \<notin> set (columns D1)"
    using position_not_stat names c1 by auto
  have nostat: "pdn \<notin> set conv"
    using pdn_not_stat by (simp add: conv_def)
  show "columns d = pdn # map fst sts @ [''position'']"
    using pos by (simp add: d merge_left_def c3 cP c1)
  let ?row = "\<lambda>x. join_row pdn (columns D3) (columns P) (get x pdn) (Some x)
                 (find (\<lambda>y. get y pdn = get x pdn) (rows P))"
  have rd: "rows d = map ?row (rows D3)"
    unfolding d by (rule merge_left_rows [OF dP])
  have nonan: "NaN \<notin> set (keys D1)"
    using k1 kt kind_table_keys by auto
  have key3: "get (cast (fill x)) pdn = get x pdn" if x: "x \<in> set (rows D1)" for x
  proof -
    have "get x pdn \<noteq> NaN" using nonan key_in_keys [OF x] by metis
    moreover have "map fst x = columns D1" using al x by simp
    moreover have "pdn \<in> set (columns D1)" by (simp add: c1)
    ultimately have "get (fill x) pdn = get x pdn"
      unfolding fill_def by (simp add: get_fill)
    then show ?thesis using nostat by (simp add: cast_def get_cast)
  qed
  have keyj: "get (join_row pdn (columns D3) (columns P) k a b) pdn = k" for k a b
    by (simp add: get_join_row c3 c1)
  have keyd: "get (?row y) pdn = get y pdn" for y
    by (rule keyj)
  have "keys d = map (\<lambda>x. get (cast (fill x)) pdn) (rows D1)"
    by (simp add: keys_def rd r3 comp_def keyd)
  also have "\<dots> = map (\<lambda>x. get x pdn) (rows D1)"
    using key3 by (intro map_cong) simp_all
  finally show "keys d = keys (reduce (merge_outer pdn) ts)"
    by (simp add: keys_def D1_def)
  have cell: "get (?row (cast (fill x))) (fst st)
        = (if get x pdn \<in> set (keys (snd st)) then cell_at (snd st) (get x pdn) (fst st) else Num 0)"
    if x: "x \<in> set (rows D1)" and st: "st \<in> set sts" for x st
  proof -
    have incol: "fst st \<in> set (columns D1)" using st c1 by simp
    have inconv: "fst st \<in> set conv" using st names incol by (auto simp: conv_def)
    have neq: "fst st \<noteq> pdn" using inconv nostat by auto
    have alx: "map fst x = columns D1" using al x by simp
    have tab: "kind_table (fst st) (snd st)" using kt st by simp
    have v: "get x (fst st) = cell_at (snd st) (get x pdn) (fst st)" using v1 x st by blast
    have "get (?row (cast (fill x))) (fst st) = get (cast (fill x)) (fst st)"
      using incol neq by (simp add: get_join_row c3)
    also have "\<dots> = cell_astype_int (get (fill x) (fst st))"
      using inconv by (simp add: cast_def get_cast)
    also have "get (fill x) (fst st) = (if get x (fst st) = NaN then Num 0 else get x (fst st))"
      unfolding fill_def by (rule get_fill [OF alx incol])
    finally have g: "get (?row (cast (fill x))) (fst st)
        = cell_astype_int (if get x (fst st) = NaN then Num 0 else get x (fst st))" .
    show ?thesis
    proof (cases "get x pdn \<in> set (keys (snd st))")
      case True
      from cell_at_kind_table [OF tab neq True] obtain n
        where "cell_at (snd st) (get x pdn) (fst st) = Num (of_nat n)" by blast
      with g v True show ?thesis by (simp add: py_int_of_nat)
    next
      case False
      then have "cell_at (snd st) (get x pdn) (fst st) = NaN" by (rule cell_at_absent)
      with g v False show ?thesis by (simp add: py_int_def)
    qed
  qed
  show "\<forall>x\<in>set (rows d). \<forall>st\<in>set sts.
           get x (fst st) = (if get x pdn \<in> set (keys (snd st))
                             then cell_at (snd st) (get x pdn) (fst st) else Num 0)"
  proof (intro ballI)
    fix y st assume "y \<in> set (rows d)" and st: "st \<in> set sts"
    then obtain x where x: "x \<in> set (rows D1)" and y: "y = ?row (cast (fill x))"
      by (auto simp: rd r3)
    have "get y pdn = get (cast (fill x)) pdn" unfolding y by (rule keyd)
    then have "get y pdn = get x pdn" by (simp only: key3 [OF x])
    moreover have "get y (fst st) = (if get x pdn \<in> set (keys (snd st))
                             then cell_at (snd st) (get x pdn) (fst st) else Num 0)"
      unfolding y by (rule cell [OF x st])
    ultimately show "get y (fst st) = (if get y pdn \<in> set (keys (snd st))
                             then cell_at (snd st) (get y pdn) (fst st) else Num 0)"
      by (simp only:)
  qed
qed

lemma load_cases:
  assumes "load_and_aggregate_pbp_data pbp rosters = Inr d"
  shows "\<exists>ts. aggregated_stats pbp def_stats_dict = Inr ts
     \<and> (ts = [] \<and> d = DataFrame \<or> ts \<noteq> [] \<and> finish_defense ts rosters = Inr d)"
  using assms by (auto simp: load_and_aggregate_pbp_data_def split: sum.splits if_splits)

lemma aggregate_summary:
  assumes agg: "aggregated_stats pbp def_stats_dict = Inr ts" and ne: "ts \<noteq> []"
    and fin: "finish_defense ts rosters = Inr d"
  shows "\<exists>sts. map snd sts = ts
     \<and> map fst sts = map fst (filter (\<lambda>e. snd (snd e) \<in> set (columns pbp)) def_stats_dict)
     \<and> (\<forall>st\<in>set sts. kind_table (fst st) (snd st) \<and> fst st \<noteq> pdn)
     \<and> columns d = pdn # map fst sts @ [''position'']
     \<and> distinct (keys d)
     \<and> set (keys d) = (\<Union>u\<in>set ts. set (keys u))
     \<and> (\<forall>x\<in>set (rows d). \<forall>st\<in>set sts.
           get x (fst st) = (if get x pdn \<in> set (keys (snd st))
                             then cell_at (snd st) (get x pdn) (fst st) else Num 0))"
proof -
  from aggregated_stats_pairs [OF agg] obtain sts where snd: "map snd sts = ts"
    and kt: "\<forall>st\<in>set sts. kind_table (fst st) (snd st)"
    and fst: "map fst sts = map fst (filter (\<lambda>e. snd (snd e) \<in> set (columns pbp)) def_stats_dict)"
    by blast
  have names: "set (map fst sts) \<subseteq> set (map fst def_stats_dict)"
    unfolding fst by auto
  have "distinct (map fst def_stats_dict)" and nopdn: "pdn \<notin> set (map fst def_stats_dict)"
    using distinct_stat_names by simp_all
  then have "distinct (map fst sts)"
    unfolding fst by (intro distinct_map_filter_fst)
  with names nopdn have dist: "distinct (pdn # map fst sts)" by auto
  from ne snd have "sts \<noteq> []" by auto
  from merged_reduce [OF this kt dist] have m: "merged sts (reduce (merge_outer pdn) ts)"
    by (simp only: snd)
  note cells = finish_defense_cells [OF m kt names fin]
  from m have "distinct (keys (reduce (merge_outer pdn) ts))"
    and "set (keys (reduce (merge_outer pdn) ts)) = (\<Union>st\<in>set sts. set (keys (snd st)))"
    by (simp_all add: merged_def)
  moreover have "(\<Union>st\<in>set sts. set (keys (snd st))) = (\<Union>u\<in>set ts. set (keys u))"
    unfolding snd [symmetric] by auto
  ultimately have "distinct (keys d)" and "set (keys d) = (\<Union>u\<in>set ts. set (keys u))"
    by (simp_all only: cells(2))
  moreover from dist have "pdn \<notin> set (map fst sts)" by simp
  then have "\<forall>st\<in>set sts. fst st \<noteq> pdn" by (metis image_eqI set_map)
  ultimately show ?thesis using snd fst kt cells(1,3) by blast
qed

lemma filter_key_one:
  assumes "distinct (map f xs)" and "k \<in> set (map f xs)"
  shows "length (filter (\<lambda>x. f x = k) xs) = 1"
proof -
  from assms(2) have "find (\<lambda>x. f x = k) xs \<noteq> None" by (simp add: find_None_key)
  then show ?thesis
    unfolding filter_key_distinct [OF assms(1)] by auto
qed

section \<open>The claims\<close>

text \<open>
  C1. Let \<open>ts\<close> be the frames of the statistics that \<^verbatim>\<open>load_and_aggregate_pbp_data\<close>
  collects and \<open>d\<close> the frame it returns. A player \<open>p\<close> of any of the frames has
  exactly one row in \<open>d\<close>; and for every frame \<open>u\<close> of \<open>ts\<close>, with its counter \<open>s\<close>,
  that row holds the count of \<open>u\<close> for \<open>p\<close> when \<open>p\<close> is in \<open>u\<close>, and 0 when not.
\<close>

theorem outer_join_completeness:
  assumes "aggregated_stats pbp_df def_stats_dict = Inr ts"
    and "load_and_aggregate_pbp_data pbp_df rosters_df = Inr d"
    and "t \<in> set ts" and "p \<in> set (keys t)"
  shows "length (filter (\<lambda>r. get r pdn = p) (rows d)) = 1
     \<and> (\<forall>u\<in>set ts. \<exists>s. columns u = [pdn, s] \<and> s \<in> set (columns d)
          \<and> (\<forall>r\<in>set (rows d). get r pdn = p \<longrightarrow>
                get r s = (if p \<in> set (keys u) then cell_at u p s else Num 0)))"
proof -
  from assms(3) have ne: "ts \<noteq> []" by auto
  with load_cases [OF assms(2)] assms(1) have fin: "finish_defense ts rosters_df = Inr d"
    by auto
  from aggregate_summary [OF assms(1) ne fin] obtain sts where snd: "map snd sts = ts"
    and kt: "\<forall>st\<in>set sts. kind_table (fst st) (snd st) \<and> fst st \<noteq> pdn"
    and cols: "columns d = pdn # map fst sts @ [''position'']"
    and dist: "distinct (keys d)"
    and keys: "set (keys d) = (\<Union>u\<in>set ts. set (keys u))"
    and cells: "\<forall>x\<in>set (rows d). \<forall>st\<in>set sts.
           get x (fst st) = (if get x pdn \<in> set (keys (snd st))
                             then cell_at (snd st) (get x pdn) (fst st) else Num 0)"
    by blast
  from assms(3,4) keys have "p \<in> set (map (\<lambda>r. get r pdn) (rows d))"
    by (auto simp: keys_def)
  moreover from dist have "distinct (map (\<lambda>r. get r pdn) (rows d))" by (simp add: keys_def)
  ultimately have one: "length (filter (\<lambda>r. get r pdn = p) (rows d)) = 1"
    by (intro filter_key_one)
  have "\<exists>s. columns u = [pdn, s] \<and> s \<in> set (columns d)
          \<and> (\<forall>r\<in>set (rows d). get r pdn = p \<longrightarrow>
                get r s = (if p \<in> set (keys u) then cell_at u p s else Num 0))"
    if "u \<in> set ts" for u
  proof -
    from that snd obtain st where st: "st \<in> set sts" and u: "u = snd st" by auto
    from kt st u have "columns u = [pdn, fst st]" by (simp add: kind_table_def)
    moreover from st cols have "fst st \<in> set (columns d)" by simp
    moreover from cells st u have "\<forall>r\<in>set (rows d). get r pdn = p \<longrightarrow>
                get r (fst st) = (if p \<in> set (keys u) then cell_at u p (fst st) else Num 0)"
      by auto
    ultimately show ?thesis by blast
  qed
  with one show ?thesis by blast
qed

theorem outer_join_completeness_witness:
  "aggregated_stats sample_pbp def_stats_dict = Inr sample_tables
   \<and> load_and_aggregate_pbp_data sample_pbp sample_rosters = Inr sample_defense
   \<and> sample_sacks \<in> set sample_tables
   \<and> Str ''B'' \<in> set (keys sample_sacks)
   \<and> length (filter (\<lambda>r. get r pdn = Str ''B'') (rows sample_defense)) = 1
   \<and> get (rows sample_defense ! 1) pdn = Str ''B''
   \<and> Str ''B'' \<notin> set (keys sample_interceptions)
   \<and> get (rows sample_defense ! 1) ''interceptions'' = Num 0"
proof -
  have tables: "aggregated_stats sample_pbp def_stats_dict = Inr sample_tables"
    by code_simp
  have run: "load_and_aggregate_pbp_data sample_pbp sample_rosters = Inr sample_defense"
    by code_simp
  have frame: "sample_sacks \<in> set sample_tables"
    by (simp add: sample_tables_def)
  have player: "Str ''B'' \<in> set (keys sample_sacks)"
    by (simp add: keys_def sample_sacks_def get_def)
  have other: "sample_interceptions \<in> set sample_tables"
    by (simp add: sample_tables_def)
  have row: "rows sample_defense ! 1 \<in> set (rows sample_defense)"
    by (simp add: sample_defense_def)
  have key: "get (rows sample_defense ! 1) pdn = Str ''B''"
    by code_simp
  have absent: "Str ''B'' \<notin> set (keys sample_interceptions)"
    by (simp add: keys_def sample_interceptions_def get_def)
  note all = outer_join_completeness [OF tables run frame player]
  then have one: "length (filter (\<lambda>r. get r pdn = Str ''B'') (rows sample_defense)) = 1"
    by (rule conjunct1)
  from all other obtain s where cols: "columns sample_interceptions = [pdn, s]"
    and cell: "\<forall>r\<in>set (rows sample_defense). get r pdn = Str ''B'' \<longrightarrow>
       get r s = (if Str ''B'' \<in> set (keys sample_interceptions)
                  then cell_at sample_interceptions (Str ''B'') s else Num 0)"
    by blast
  from cols have s: "s = ''interceptions''" by (simp add: sample_interceptions_def)
  from cell row key absent have "get (rows sample_defense ! 1) s = Num 0" by simp
  with s have zero: "get (rows sample_defense ! 1) ''interceptions'' = Num 0" by simp
  from tables run frame player one key absent zero show ?thesis by blast
qed

text \<open>
  C2. Every leaderboard of the first tab, on the defence, the offence and the Next Gen
  Stats branch alike, lists its rows by descending value of the charted column (each
  value a number), has at most 20 rows, and is labelled with the ranks 1, 2, ... up to
  its length. This holds for every sort that meets numpy's contract.
\<close>

theorem leaderboard_ordering:
  assumes "argsort_ok argsort"
    and "tab1 argsort weekly_df ngs_data_raw defensive_df selected_year main_category ngs_type
           sub_category_key week_range = Inr (Some (lb, stat_column))"
  shows "sorted_wrt (\<lambda>x y. num_of (get y stat_column) \<le> num_of (get x stat_column)) (lb_rows lb)
    \<and> (\<forall>r\<in>set (lb_rows lb). \<exists>q. get r stat_column = Num q)
    \<and> length (lb_rows lb) \<le> 20
    \<and> lb_index lb = map int [1..<Suc (length (lb_rows lb))]"
  using tab1_Some_cases [OF assms(2)]
proof (elim disjE conjE)
  assume "defense_leaderboard argsort defensive_df stat_column = Inr (Some lb)"
  from defense_leaderboard_ordered [OF assms(1) this] show ?thesis
    by (auto dest: positive_Num)
next
  assume "stat_column \<in> set (map snd OFFENSE_STATS)"
    and "leaders argsort (loc (in_weeks week_range) weekly_df) [pdn, ''position''] stat_column
           [pdn, ''position'', stat_column] = Inr (Some lb)"
  from leaders_ordered [OF assms(1) this(2) offense_stat_not_key [OF this(1)]]
  show ?thesis by simp
next
  assume "stat_column \<in> set (map fst NGS_TRANSLATIONS)"
    and "leaders argsort (loc (\<lambda>r. get r ''season'' = Num (of_int selected_year)) (ngs_data_raw ngs_type))
           [pdn] stat_column [pdn, stat_column] = Inr (Some lb)"
  from leaders_ordered [OF assms(1) this(2) ngs_stat_not_key [OF this(1)]]
  show ?thesis by simp
qed

theorem leaderboard_ordering_witness:
  "argsort_ok stable_argsort
   \<and> tab1 stable_argsort sample_weekly sample_ngs sample_defense 2024 Defense Passing
        (Some ''Sacks'') (1, 3) = Inr (Some (sample_sack_leaders, ''sacks''))
   \<and> sorted_wrt (\<lambda>x y. num_of (get y ''sacks'') \<le> num_of (get x ''sacks''))
        (lb_rows sample_sack_leaders)
   \<and> length (lb_rows sample_sack_leaders) \<le> 20
   \<and> lb_index sample_sack_leaders = map int [1..<Suc (length (lb_rows sample_sack_leaders))]"
proof -
  have ok: "argsort_ok stable_argsort" by (rule argsort_ok_stable)
  have run: "tab1 stable_argsort sample_weekly sample_ngs sample_defense 2024 Defense Passing
        (Some ''Sacks'') (1, 3) = Inr (Some (sample_sack_leaders, ''sacks''))"
    by code_simp
  from leaderboard_ordering [OF ok run] ok run show ?thesis by blast
qed

text \<open>
  C3. The claim holds on the offence branch, which sums over the weekly rows that the
  week filter of the slider has kept. The Next Gen Stats branch shows the same slider,
  and its chart is titled with the weeks chosen, but it replaces the filtered frame by
  the season's rows of the tracking frame, so that the range is lost. With the weeks 1
  to 1 chosen, the offence leaderboard shows A with 100, the passing yards of week 1;
  the Next Gen Stats leaderboard shows A with 6, the sum over both games of A in 2024,
  where the rows of A in week 1 sum to 2.
\<close>

theorem week_range_lost_on_ngs:
  "tab1 stable_argsort sample_weekly sample_ngs sample_defense 2024 Offense Passing
        (Some ''Passing Yards'') (1, 1)
      = Inr (Some (sample_week1_leaders, ''passing_yards''))
   \<and> get (lb_rows sample_week1_leaders ! 0) pdn = Str ''A''
   \<and> get (lb_rows sample_week1_leaders ! 0) ''passing_yards'' = Num 100
   \<and> sum_list (map (\<lambda>x. num_of (get x ''passing_yards''))
        (filter (\<lambda>x. get x pdn = Str ''A'' \<and> in_weeks (1, 1) x) (rows sample_weekly))) = 100
   \<and> tab1 stable_argsort sample_weekly sample_ngs sample_defense 2024 Next_Gen_Stats Passing
        (Some ''Avg Time to Throw (sec)'') (1, 1)
      = Inr (Some (sample_ngs_leaders, ''avg_time_to_throw''))
   \<and> get (lb_rows sample_ngs_leaders ! 0) pdn = Str ''A''
   \<and> get (lb_rows sample_ngs_leaders ! 0) ''avg_time_to_throw'' = Num 6
   \<and> sum_list (map (\<lambda>x. num_of (get x ''avg_time_to_throw''))
        (filter (\<lambda>x. get x pdn = Str ''A'' \<and> get x ''season'' = Num 2024 \<and> in_weeks (1, 1) x)
                (rows (sample_ngs Passing)))) = 2"
  by code_simp

text \<open>
  C4. For the chosen player, \<^verbatim>\<open>cols_with_data\<close> is the list of the offensive statistics
  that are columns of the weekly frame and whose total over all the player's rows is
  positive. When it is not empty, the full-season table has exactly these columns, and
  the table of the chosen weeks has those of them whose total over the weeks of the range
  is positive. Another week range changes neither \<^verbatim>\<open>cols_with_data\<close> nor the full-season
  table.
\<close>

theorem summary_columns:
  assumes "tab2 weekly_df player_name player_week_range = Inr (Some s)"
  shows "cols_with_data s =
           filter (\<lambda>col. col \<in> set (columns weekly_df)
                          \<and> 0 < season_total weekly_df player_name col)
                  (map snd OFFENSE_STATS)
     \<and> (cols_with_data s \<noteq> [] \<longrightarrow>
          (\<exists>a ra. agg_stats s = Some a \<and> map fst a = cols_with_data s
             \<and> range_agg_stats s = Some ra
             \<and> map fst ra =
                 filter (\<lambda>col. 0 < range_total weekly_df player_name player_week_range col)
                        (cols_with_data s)))
     \<and> (\<forall>other s'. tab2 weekly_df player_name other = Inr (Some s') \<longrightarrow>
            cols_with_data s' = cols_with_data s \<and> agg_stats s' = agg_stats s)"
proof (intro conjI allI impI)
  show "cols_with_data s =
           filter (\<lambda>col. col \<in> set (columns weekly_df)
                          \<and> 0 < season_total weekly_df player_name col)
                  (map snd OFFENSE_STATS)"
    by (rule tab2_Some(1) [OF assms])
next
  assume ne: "cols_with_data s \<noteq> []"
  let ?a = "map (\<lambda>col. (col, py_int (season_total weekly_df player_name col))) (cols_with_data s)"
  let ?ra = "map (\<lambda>(col, v). (col, py_int v))
               (filter (\<lambda>(col, v). 0 < v)
                  (map (\<lambda>col. (col, range_total weekly_df player_name player_week_range col))
                       (cols_with_data s)))"
  have "agg_stats s = Some ?a" using tab2_Some(2) [OF assms] ne by simp
  moreover have "map fst ?a = cols_with_data s" by (simp add: comp_def)
  moreover have "range_agg_stats s = Some ?ra" using tab2_Some(3) [OF assms] ne by simp
  moreover have "map fst ?ra =
      filter (\<lambda>col. 0 < range_total weekly_df player_name player_week_range col) (cols_with_data s)"
    by (rule kept_columns)
  ultimately show "\<exists>a ra. agg_stats s = Some a \<and> map fst a = cols_with_data s
             \<and> range_agg_stats s = Some ra
             \<and> map fst ra =
                 filter (\<lambda>col. 0 < range_total weekly_df player_name player_week_range col)
                        (cols_with_data s)"
    by blast
next
  fix other s' assume other: "tab2 weekly_df player_name other = Inr (Some s')"
  show "cols_with_data s' = cols_with_data s"
    by (simp only: tab2_Some(1) [OF assms] tab2_Some(1) [OF other])
  then show "agg_stats s' = agg_stats s"
    by (simp only: tab2_Some(2) [OF assms] tab2_Some(2) [OF other])
qed

theorem summary_columns_witness:
  "tab2 sample_weekly ''A'' (2, 2) = Inr (Some (sample_summary []))
   \<and> tab2 sample_weekly ''A'' (2, 3) = Inr (Some (sample_summary [(''passing_yards'', 50)]))
   \<and> cols_with_data (sample_summary []) =
        filter (\<lambda>col. col \<in> set (columns sample_weekly) \<and> 0 < season_total sample_weekly ''A'' col)
               (map snd OFFENSE_STATS)
   \<and> cols_with_data (sample_summary [(''passing_yards'', 50)]) = cols_with_data (sample_summary [])
   \<and> agg_stats (sample_summary [(''passing_yards'', 50)]) = agg_stats (sample_summary [])
   \<and> (\<exists>a ra. agg_stats (sample_summary []) = Some a
         \<and> map fst a = cols_with_data (sample_summary [])
         \<and> range_agg_stats (sample_summary []) = Some ra
         \<and> map fst ra = filter (\<lambda>col. 0 < range_total sample_weekly ''A'' (2, 2) col)
                                 (cols_with_data (sample_summary [])))"
proof -
  have one: "tab2 sample_weekly ''A'' (2, 2) = Inr (Some (sample_summary []))"
    by code_simp
  have two: "tab2 sample_weekly ''A'' (2, 3) = Inr (Some (sample_summary [(''passing_yards'', 50)]))"
    by code_simp
  have ne: "cols_with_data (sample_summary []) \<noteq> []"
    by (simp add: sample_summary_def)
  note all = summary_columns [OF one]
  from all have a: "cols_with_data (sample_summary []) =
        filter (\<lambda>col. col \<in> set (columns sample_weekly) \<and> 0 < season_total sample_weekly ''A'' col)
               (map snd OFFENSE_STATS)"
    by (rule conjunct1)
  from all ne have b: "\<exists>a ra. agg_stats (sample_summary []) = Some a
         \<and> map fst a = cols_with_data (sample_summary [])
         \<and> range_agg_stats (sample_summary []) = Some ra
         \<and> map fst ra = filter (\<lambda>col. 0 < range_total sample_weekly ''A'' (2, 2) col)
                                 (cols_with_data (sample_summary []))"
    by blast
  from all two have c: "cols_with_data (sample_summary [(''passing_yards'', 50)]) = cols_with_data (sample_summary [])
      \<and> agg_stats (sample_summary [(''passing_yards'', 50)]) = agg_stats (sample_summary [])"
    by blast
  from one two a b c show ?thesis by blast
qed

text \<open>
  C5. The claim asks for the mean of a metric whose column name contains \<^verbatim>\<open>avg\<close>. The
  program computes the choice and then sums all the same: for the column
  \<^verbatim>\<open>avg_time_to_throw\<close> player A, with the games 2 and 4, is shown with 6, and the mean
  of the two games is 3.
\<close>

theorem avg_metric_is_summed:
  "contains ''avg_time_to_throw'' ''avg''
   \<and> tab1 stable_argsort sample_weekly sample_ngs sample_defense 2024 Next_Gen_Stats Passing
        (Some ''Avg Time to Throw (sec)'') (1, 3)
      = Inr (Some (sample_ngs_leaders, ''avg_time_to_throw''))
   \<and> get (lb_rows sample_ngs_leaders ! 0) pdn = Str ''A''
   \<and> get (lb_rows sample_ngs_leaders ! 0) ''avg_time_to_throw'' = Num 6
   \<and> series_mean (map (\<lambda>x. get x ''avg_time_to_throw'')
        (filter (\<lambda>x. get x pdn = Str ''A'' \<and> get x ''season'' = Num 2024)
                (rows (sample_ngs Passing)))) = 3"
  by code_simp

text \<open>
  C6, as the program has it. In the frame that \<^verbatim>\<open>load_and_aggregate_pbp_data\<close> returns,
  every counter that is a column of the frame is a natural number in every row; when
  the play-by-play frame has the five player columns, the frame has all five counters;
  and a frame with a row has, between the player and the position, the counters of
  exactly those statistics whose player column the plays have, so that the counter of
  a statistic without its player column is left out.
\<close>

theorem counters_are_counts:
  assumes "load_and_aggregate_pbp_data pbp_df rosters_df = Inr d"
  shows "(\<forall>r\<in>set (rows d). \<forall>s\<in>set (map fst def_stats_dict).
            s \<in> set (columns d) \<longrightarrow> (\<exists>n::nat. get r s = Num (of_nat n)))
     \<and> ((\<forall>e\<in>set def_stats_dict. snd (snd e) \<in> set (columns pbp_df)) \<longrightarrow>
            columns d = pdn # map fst def_stats_dict @ [''position''])
     \<and> (rows d \<noteq> [] \<longrightarrow>
            columns d =
              pdn # map fst (filter (\<lambda>e. snd (snd e) \<in> set (columns pbp_df)) def_stats_dict)
                  @ [''position''])"
proof -
  from load_cases [OF assms] obtain ts where agg: "aggregated_stats pbp_df def_stats_dict = Inr ts"
    and cases: "ts = [] \<and> d = DataFrame \<or> ts \<noteq> [] \<and> finish_defense ts rosters_df = Inr d"
    by blast
  show ?thesis
  proof (cases "ts = []")
    case True
    with cases have d: "d = DataFrame" by simp
    from aggregated_stats_pairs [OF agg] True
    have "filter (\<lambda>e. snd (snd e) \<in> set (columns pbp_df)) def_stats_dict = []"
      by auto
    then have "\<not> (\<forall>e\<in>set def_stats_dict. snd (snd e) \<in> set (columns pbp_df))"
      by (auto simp: filter_empty_conv def_stats_dict_def)
    then show ?thesis by (simp add: d DataFrame_def)
  next
    case False
    with cases have fin: "finish_defense ts rosters_df = Inr d" by simp
    from aggregate_summary [OF agg False fin] obtain sts where
      fst: "map fst sts = map fst (filter (\<lambda>e. snd (snd e) \<in> set (columns pbp_df)) def_stats_dict)"
      and kt: "\<forall>st\<in>set sts. kind_table (fst st) (snd st) \<and> fst st \<noteq> pdn"
      and cols: "columns d = pdn # map fst sts @ [''position'']"
      and cells: "\<forall>x\<in>set (rows d). \<forall>st\<in>set sts.
           get x (fst st) = (if get x pdn \<in> set (keys (snd st))
                             then cell_at (snd st) (get x pdn) (fst st) else Num 0)"
      by blast
    have "\<exists>n::nat. get r s = Num (of_nat n)"
      if r: "r \<in> set (rows d)" and s: "s \<in> set (map fst def_stats_dict)"
        and c: "s \<in> set (columns d)" for r s
    proof -
      from s position_not_stat have "s \<noteq> ''position''" by (metis list.set_intros(2))
      moreover from s pdn_not_stat have "s \<noteq> pdn" by metis
      moreover note c cols
      ultimately have "s \<in> set (map fst sts)" by simp
      then obtain st where st: "st \<in> set sts" and sn: "s = fst st" by auto
      show ?thesis
      proof (cases "get r pdn \<in> set (keys (snd st))")
        case True
        from kt st have "kind_table (fst st) (snd st)" "fst st \<noteq> pdn" by auto
        from cell_at_kind_table [OF this True] cells r st True show ?thesis
          by (auto simp: sn)
      next
        case False
        with cells r st have "get r s = Num (of_nat 0)" by (simp add: sn)
        then show ?thesis by blast
      qed
    qed
    moreover have "columns d = pdn # map fst def_stats_dict @ [''position'']"
      if "\<forall>e\<in>set def_stats_dict. snd (snd e) \<in> set (columns pbp_df)"
    proof -
      from that have "filter (\<lambda>e. snd (snd e) \<in> set (columns pbp_df)) def_stats_dict = def_stats_dict"
        by (simp add: filter_id_conv)
      with fst cols show ?thesis by simp
    qed
    moreover from fst cols have "columns d =
        pdn # map fst (filter (\<lambda>e. snd (snd e) \<in> set (columns pbp_df)) def_stats_dict)
            @ [''position'']"
      by simp
    ultimately show ?thesis by blast
  qed
qed

theorem counters_are_counts_witness:
  "load_and_aggregate_pbp_data sample_pbp sample_rosters = Inr sample_defense
   \<and> set (map (\<lambda>e. snd (snd e)) def_stats_dict) \<subseteq> set (columns sample_pbp)
   \<and> ''sacks'' \<in> set (map fst def_stats_dict)
   \<and> ''sacks'' \<in> set (columns sample_defense)
   \<and> (\<exists>n::nat. get (rows sample_defense ! 1) ''sacks'' = Num (of_nat n))
   \<and> columns sample_defense = pdn # map fst def_stats_dict @ [''position'']
   \<and> rows sample_defense \<noteq> []
   \<and> columns sample_defense =
        pdn # map fst (filter (\<lambda>e. snd (snd e) \<in> set (columns sample_pbp)) def_stats_dict)
            @ [''position'']"
proof -
  have run: "load_and_aggregate_pbp_data sample_pbp sample_rosters = Inr sample_defense"
    by code_simp
  have cols: "set (map (\<lambda>e. snd (snd e)) def_stats_dict) \<subseteq> set (columns sample_pbp)"
    by code_simp
  have stat: "''sacks'' \<in> set (map fst def_stats_dict)"
    by (simp add: def_stats_dict_def)
  have col: "''sacks'' \<in> set (columns sample_defense)"
    by (simp add: sample_defense_def)
  have row: "rows sample_defense ! 1 \<in> set (rows sample_defense)"
    by (simp add: sample_defense_def)
  note all = counters_are_counts [OF run]
  from all row stat col have count: "\<exists>n::nat. get (rows sample_defense ! 1) ''sacks'' = Num (of_nat n)"
    by blast
  from cols have "\<forall>e\<in>set def_stats_dict. snd (snd e) \<in> set (columns sample_pbp)"
    by auto
  with all have five: "columns sample_defense = pdn # map fst def_stats_dict @ [''position'']"
    by blast
  have some: "rows sample_defense \<noteq> []"
    by (simp add: sample_defense_def)
  with all have kept: "columns sample_defense =
        pdn # map fst (filter (\<lambda>e. snd (snd e) \<in> set (columns sample_pbp)) def_stats_dict)
            @ [''position'']"
    by blast
  from run cols stat col count five some kept show ?thesis by blast
qed

text \<open>
  The claim as written fails for plays that lack the player column of a statistic: from
  plays with the two columns of the sacks alone the program builds a frame with the
  sacks and no other counter, so that the row of B has one counter, not five.
\<close>

theorem counters_are_counts_counterexample:
  "load_and_aggregate_pbp_data sample_sack_plays sample_rosters = Inr sample_sack_defense
   \<and> columns sample_sack_defense = [pdn, ''sacks'', ''position'']
   \<and> get (rows sample_sack_defense ! 0) pdn = Str ''B''
   \<and> ''interceptions'' \<notin> set (columns sample_sack_defense)
   \<and> map (get (rows sample_sack_defense ! 0)) (map fst def_stats_dict)
       = [Num 1, NaN, NaN, NaN, NaN]"
  by code_simp

text \<open>
  C7. The program tests for the player column of a statistic, for an empty list of
  frames and for the column of the leaderboard, and there it returns nothing, as the
  claim says: plays with none of the five player columns give the empty frame, and a
  statistic that is not a column of the defensive frame gives no leaderboard. The reads
  beside these tests have no test of their own, and there the program raises. For
  plays that name the player of a sack and have no column \<^verbatim>\<open>sack\<close> the flag column is
  read and a \<^verbatim>\<open>KeyError\<close> is raised; so is one for a roster without the column
  \<^verbatim>\<open>position\<close>, for a tracking frame with no column at all, and for a tracking frame
  with none of the translated columns, where the select box has no option and returns
  \<open>None\<close>.
\<close>

theorem unguarded_reads_raise:
  "load_and_aggregate_pbp_data \<lparr>columns = [''play_id''], rows = [[(''play_id'', Num 7)]]\<rparr>
        sample_rosters = Inr DataFrame
   \<and> defense_leaderboard stable_argsort sample_defense ''fumbles_lost'' = Inr None
   \<and> load_and_aggregate_pbp_data sample_unflagged_plays sample_rosters
       = Inl (KeyError ''sack'')
   \<and> load_and_aggregate_pbp_data sample_pbp sample_roster_names
       = Inl (KeyError ''position'')
   \<and> tab1 stable_argsort sample_weekly sample_ngs_empty sample_defense 2024 Next_Gen_Stats
        Passing None (1, 3) = Inl (KeyError ''season'')
   \<and> ngs_stat_cols (loc (\<lambda>r. get r ''season'' = Num 2024) (sample_ngs_untranslated Receiving))
       = []
   \<and> tab1 stable_argsort sample_weekly sample_ngs_untranslated sample_defense 2024
        Next_Gen_Stats Receiving None (1, 3) = Inl (KeyError ''None'')"
  by code_simp

text \<open>
  C9, as the program has it. The defensive frame is built from the plays and the roster
  alone, and the defence branch of the first tab reads nothing else: whenever the script
  reaches the tab under two season types, it draws the same defensive leaderboard.
\<close>

theorem defense_under_season_types:
  assumes "top_performers argsort season_type_toggle weekly_df_raw ngs_data_raw pbp_df rosters_df
             selected_year Defense ngs_type sub_category_key week_range = Inr (Shown chart)"
    and "top_performers argsort season_type_toggle' weekly_df_raw ngs_data_raw pbp_df rosters_df
             selected_year Defense ngs_type sub_category_key week_range = Inr (Shown chart')"
  shows "chart = chart'"
proof -
  from top_performers_Shown [OF assms(1)] obtain d weekly where
    "load_and_aggregate_pbp_data pbp_df rosters_df = Inr d"
    and "tab1 argsort weekly ngs_data_raw d selected_year Defense ngs_type sub_category_key
           week_range = Inr chart"
    by blast
  moreover from top_performers_Shown [OF assms(2)] obtain d' weekly' where
    "load_and_aggregate_pbp_data pbp_df rosters_df = Inr d'"
    and "tab1 argsort weekly' ngs_data_raw d' selected_year Defense ngs_type sub_category_key
           week_range = Inr chart'"
    by blast
  ultimately show ?thesis
    using tab1_defense [of argsort weekly ngs_data_raw d selected_year ngs_type sub_category_key
        week_range weekly' ngs_data_raw selected_year ngs_type week_range]
    by simp
qed

theorem defense_under_season_types_witness:
  "top_performers stable_argsort All sample_weekly sample_ngs sample_pbp sample_rosters
      2024 Defense Passing (Some ''Sacks'') (1, 3)
     = Inr (Shown (Some (sample_sack_leaders, ''sacks'')))
   \<and> top_performers stable_argsort Regular_Season sample_weekly sample_ngs sample_pbp sample_rosters
      2024 Defense Passing (Some ''Sacks'') (1, 3)
     = Inr (Shown (Some (sample_sack_leaders, ''sacks'')))
   \<and> Some (sample_sack_leaders, ''sacks'') = Some (sample_sack_leaders, ''sacks'')"
proof -
  have all: "top_performers stable_argsort All sample_weekly sample_ngs sample_pbp sample_rosters
      2024 Defense Passing (Some ''Sacks'') (1, 3)
     = Inr (Shown (Some (sample_sack_leaders, ''sacks'')))"
    by code_simp
  have reg: "top_performers stable_argsort Regular_Season sample_weekly sample_ngs sample_pbp
      sample_rosters 2024 Defense Passing (Some ''Sacks'') (1, 3)
     = Inr (Shown (Some (sample_sack_leaders, ''sacks'')))"
    by code_simp
  from defense_under_season_types [OF all reg] all reg show ?thesis by blast
qed

text \<open>
  The claim as written fails where the season type leaves no weekly row: the script then
  stops before the tabs. The sample season has no post-season week, so with the season
  type ``Postseason'' no defensive leaderboard is drawn, while ``All'' draws it.
\<close>

theorem defense_under_season_types_counterexample:
  "top_performers stable_argsort All sample_weekly sample_ngs sample_pbp sample_rosters
      2024 Defense Passing (Some ''Sacks'') (1, 3)
     = Inr (Shown (Some (sample_sack_leaders, ''sacks'')))
   \<and> top_performers stable_argsort Postseason sample_weekly sample_ngs sample_pbp sample_rosters
      2024 Defense Passing (Some ''Sacks'') (1, 3)
     = Inr Stopped"
  by code_simp

text \<open>
  C10. On the Next Gen Stats branch the first tab gives the same result for every week
  range, and so does the whole script.
\<close>

theorem ngs_ignores_week_range:
  "tab1 argsort weekly_df ngs_data_raw defensive_df selected_year Next_Gen_Stats ngs_type
        sub_category_key week_range
   = tab1 argsort weekly_df ngs_data_raw defensive_df selected_year Next_Gen_Stats ngs_type
        sub_category_key week_range'
   \<and> top_performers argsort season_type_toggle weekly_df_raw ngs_data_raw pbp_df rosters_df
        selected_year Next_Gen_Stats ngs_type sub_category_key week_range
   = top_performers argsort season_type_toggle weekly_df_raw ngs_data_raw pbp_df rosters_df
        selected_year Next_Gen_Stats ngs_type sub_category_key week_range'"
proof -
  have same: "tab1 a w n d y Next_Gen_Stats nt k week_range
      = tab1 a w n d y Next_Gen_Stats nt k week_range'" for a w n d y nt k
    by (rule tab1_ngs_weeks)
  show ?thesis
    by (auto simp: top_performers_def Let_def same split: sum.splits)
qed

theorem ngs_ignores_week_range_witness:
  "tab1 stable_argsort sample_weekly sample_ngs sample_defense 2024 Next_Gen_Stats Passing
        (Some ''Avg Time to Throw (sec)'') (1, 1)
      = Inr (Some (sample_ngs_leaders, ''avg_time_to_throw''))
   \<and> tab1 stable_argsort sample_weekly sample_ngs sample_defense 2024 Next_Gen_Stats Passing
        (Some ''Avg Time to Throw (sec)'') (2, 3)
      = Inr (Some (sample_ngs_leaders, ''avg_time_to_throw''))"
proof -
  have run: "tab1 stable_argsort sample_weekly sample_ngs sample_defense 2024 Next_Gen_Stats
        Passing (Some ''Avg Time to Throw (sec)'') (1, 1)
      = Inr (Some (sample_ngs_leaders, ''avg_time_to_throw''))"
    by code_simp
  from ngs_ignores_week_range [of stable_argsort sample_weekly sample_ngs sample_defense 2024
         Passing "Some ''Avg Time to Throw (sec)''" "(1, 1)" "(2, 3)"]
  have "tab1 stable_argsort sample_weekly sample_ngs sample_defense 2024 Next_Gen_Stats
        Passing (Some ''Avg Time to Throw (sec)'') (2, 3)
      = tab1 stable_argsort sample_weekly sample_ngs sample_defense 2024 Next_Gen_Stats
        Passing (Some ''Avg Time to Throw (sec)'') (1, 1)"
    by simp
  with run show ?thesis by simp
qed

end
